theory Spec2Isabelle
  imports Main "HOL-Library.Word"
begin

unbundle bit_operations_syntax

section \<open>The decoder of c-json.c\<close>

text \<open>
  A shallow embedding of \<^verbatim>\<open>src/c-json.c\<close>, the pull decoder over a 0-terminated
  string. Every C function is one HOL function of the same name that takes the
  \<^verbatim>\<open>CJson\<close> object and returns it updated next to the function's result.

  \<^item> A C string is the list of its bytes before the terminating 0; a pointer into the
    string (\<^verbatim>\<open>json->p\<close>, \<^verbatim>\<open>end\<close>) is the rest of the string from there on.
    Reading \<^verbatim>\<open>*p\<close> at the end of the list gives the terminator. The code never
    moves a pointer beyond a byte 0, and neither does the model.
  \<^item> \<^verbatim>\<open>char\<close> is the 8-bit type \<^typ>\<open>char\<close>; \<^verbatim>\<open>uint8_t\<close>,
    \<^verbatim>\<open>uint16_t\<close>, \<^verbatim>\<open>uint32_t\<close> and \<^verbatim>\<open>uint64_t\<close> are words of
    that width; \<^verbatim>\<open>size_t\<close> is a natural number, with the wrap-around of
    \<^verbatim>\<open>json->level -= 1\<close> written out for 64 bits.
  \<^item> An \<^verbatim>\<open>int\<close> result is \<open>Inl e\<close> for the error code \<open>e\<close> and \<open>Inr v\<close>
    for 0, with the value \<open>v\<close> the function stored through its out-parameter.
\<close>

subsection \<open>Error codes and types\<close>

text \<open>
  Modelled from the spec: the header \<^verbatim>\<open>c-json.h\<close>, which declares the error codes
  and the \<^verbatim>\<open>C_JSON_TYPE_\<close> constants, is not among the sources. The spec lists the
  error codes as InvalidJson, InvalidType, DepthOverflow and Unrecoverable (the
  negative errno value \<^verbatim>\<open>-ENOTRECOVERABLE\<close> of the code); the value 0 (no error) is
  \<open>None\<close> in \<^verbatim>\<open>json->poison\<close>.
\<close>

datatype err =
    C_JSON_E_INVALID_JSON
  | C_JSON_E_INVALID_TYPE
  | C_JSON_E_DEPTH_OVERFLOW
  | ENOTRECOVERABLE

datatype json_type =
    C_JSON_TYPE_ARRAY
  | C_JSON_TYPE_OBJECT
  | C_JSON_TYPE_STRING
  | C_JSON_TYPE_NUMBER
  | C_JSON_TYPE_BOOLEAN
  | C_JSON_TYPE_NULL

subsection \<open>struct CJson\<close>

text \<open>
  \<^verbatim>\<open>input\<close> is \<open>None\<close> for the NULL pointer. \<^verbatim>\<open>p\<close> is NULL exactly when
  \<^verbatim>\<open>input\<close> is (\<^verbatim>\<open>c_json_new\<close>, \<^verbatim>\<open>c_json_begin_read\<close> and
  \<^verbatim>\<open>c_json_end_read\<close> set both together), so the field \<open>p\<close> holds the cursor of an
  open session and has no meaning while \<open>input\<close> is \<open>None\<close>. \<^verbatim>\<open>states\<close> is the
  flexible array member: the bytes of the allocation behind the fixed fields, as many as
  \<^verbatim>\<open>c_json_new\<close> allocated. The fields \<^verbatim>\<open>n_states\<close> and \<^verbatim>\<open>level\<close>
  are \<^verbatim>\<open>size_t\<close>; they hold the numbers below \<open>2 ^ 64\<close> that the code stores, and
  \<^verbatim>\<open>c_json_close_array\<close> and \<^verbatim>\<open>c_json_close_object\<close> write out the
  wrap-around of their decrement.
\<close>

record CJson =
  input :: "string option"
  p :: string
  poison :: "err option"
  n_states :: nat
  level :: nat
  states :: "char list"

definition deref :: "string \<Rightarrow> char" where
  "deref s = (case s of [] \<Rightarrow> CHR 0x00 | c # _ \<Rightarrow> c)"

definition ptr_add :: "nat \<Rightarrow> string \<Rightarrow> string" where
  "ptr_add n s = drop n s"

definition latch :: "err \<Rightarrow> CJson \<Rightarrow> (err + 'a) \<times> CJson" where
  \<comment> \<open>\<^verbatim>\<open>return (json->poison = e);\<close>\<close>
  "latch e json = (Inl e, json\<lparr>poison := Some e\<rparr>)"

fun skip_space :: "string \<Rightarrow> string" where
  "skip_space [] = []"
| "skip_space (c # cs) =
     (if c = CHR '' '' \<or> c = CHR 0x09 \<or> c = CHR 0x0A \<or> c = CHR 0x0D
      then skip_space cs else c # cs)"

subsection \<open>c\_json\_advance\<close>

definition c_json_advance :: "CJson \<Rightarrow> (err + unit) \<times> CJson" where
  "c_json_advance json0 =
    (case poison json0 of
       Some e \<Rightarrow> (Inl e, json0)
     | None \<Rightarrow>
        let json = json0\<lparr>p := skip_space (p json0)\<rparr>;
            c = deref (p json);
            st = states json ! level json
        in
          if st = CHR ''['' then
            (if c = CHR '','' then
               (Inr (), json\<lparr>states := (states json)[level json := CHR '',''],
                              p := skip_space (ptr_add 1 (p json))\<rparr>)
             else if c \<noteq> CHR '']'' then latch C_JSON_E_INVALID_JSON json
             else (Inr (), json))
          else if st = CHR '','' then
            (if c = CHR '','' then
               (Inr (), json\<lparr>p := skip_space (ptr_add 1 (p json))\<rparr>)
             else if c = CHR '']'' then
               (Inr (), json\<lparr>states := (states json)[level json := CHR ''['']\<rparr>)
             else latch C_JSON_E_INVALID_JSON json)
          else if st = CHR ''{'' then
            (if c = CHR '':'' then
               (Inr (), json\<lparr>states := (states json)[level json := CHR '':''],
                              p := skip_space (ptr_add 1 (p json))\<rparr>)
             else latch C_JSON_E_INVALID_JSON json)
          else if st = CHR '':'' then
            (if c = CHR '','' then
               (let json' = json\<lparr>states := (states json)[level json := CHR ''{''],
                                    p := skip_space (ptr_add 1 (p json))\<rparr>
                in if deref (p json') \<noteq> CHR 0x22 then latch C_JSON_E_INVALID_JSON json'
                   else (Inr (), json'))
             else if c \<noteq> CHR ''}'' then latch C_JSON_E_INVALID_JSON json
             else (Inr (), json))
          else (Inr (), json))"

subsection \<open>c\_json\_new, c\_json\_begin\_read, c\_json\_end\_read\<close>

text \<open>
  \<^verbatim>\<open>sizeof(*json)\<close>: two pointers, an \<^verbatim>\<open>int\<close> with its padding and two
  \<^verbatim>\<open>size_t\<close>, 40 bytes where \<^verbatim>\<open>size_t\<close> has 64 bits; the flexible array member
  adds nothing.
\<close>

definition sizeof_CJson :: "64 word" where
  "sizeof_CJson = 40"

text \<open>
  \<^verbatim>\<open>max_depth\<close> is a \<^verbatim>\<open>size_t\<close>, and the size
  \<^verbatim>\<open>sizeof(*json) + max_depth + 1\<close> of the allocation is computed in
  \<^verbatim>\<open>size_t\<close>: it wraps around for the 41 greatest values of \<^verbatim>\<open>max_depth\<close>.
  \<^verbatim>\<open>calloc\<close> zeroes the object; the model takes the allocation to succeed (the
  \<^verbatim>\<open>-ENOMEM\<close> return hands out no object). The array \<^verbatim>\<open>states\<close> is what the
  allocation holds behind the \<^verbatim>\<open>sizeof(*json)\<close> bytes of the fixed fields:
  \<open>max_depth + 1\<close> bytes when the size has not wrapped and no byte when it has, while
  \<^verbatim>\<open>n_states\<close> is \<^verbatim>\<open>max_depth\<close> in both cases. (A wrapped size below
  \<^verbatim>\<open>sizeof(*json)\<close> leaves no room for all of the fixed fields either; the record
  does not show that.)
\<close>

definition c_json_new :: "64 word \<Rightarrow> CJson" where
  "c_json_new max_depth =
     \<lparr>input = None, p = [], poison = None, n_states = unat max_depth, level = 0,
      states = replicate (unat (sizeof_CJson + max_depth + 1) - unat sizeof_CJson) (CHR 0x00)\<rparr>"

text \<open>\<^verbatim>\<open>assert(!json->input)\<close>: the result \<open>None\<close> is the failed assertion.\<close>

definition c_json_begin_read :: "CJson \<Rightarrow> string \<Rightarrow> CJson option" where
  "c_json_begin_read json string =
     (if input json \<noteq> None then None
      else Some (json\<lparr>input := Some string, p := skip_space string\<rparr>))"

definition c_json_end_read :: "CJson \<Rightarrow> (err + unit) \<times> CJson" where
  "c_json_end_read json =
     (let r = poison json;
          r = (if r = None then
                 (let r = (if level json > 0 then Some C_JSON_E_INVALID_TYPE else r)
                  in if level json = 0 \<and> deref (p json) \<noteq> CHR 0x00
                     then Some C_JSON_E_INVALID_JSON else r)
               else r)
      in (case r of None \<Rightarrow> Inr () | Some e \<Rightarrow> Inl e,
          json\<lparr>level := 0, input := None, p := []\<rparr>))"

subsection \<open>strtoul and c\_json\_read\_u64\<close>

text \<open>
  \<^verbatim>\<open>strtoul\<close> belongs to the C library. It is modelled after ISO C (7.22.1.4) for
  base 10, the "C" locale and a 64-bit \<^verbatim>\<open>unsigned long\<close>: white space is skipped,
  one sign is accepted, the longest run of decimal digits is converted; without a digit
  nothing is consumed and the value is 0; a value that does not fit is
  \<^verbatim>\<open>ULONG_MAX\<close>; a minus sign negates a value that fits, in the unsigned type.
  The result is the value and the number of bytes before \<^verbatim>\<open>end\<close>.
\<close>

definition isspace :: "char \<Rightarrow> bool" where
  "isspace c \<longleftrightarrow> c = CHR '' '' \<or> (9 \<le> (of_char c :: nat) \<and> (of_char c :: nat) \<le> 13)"

definition isdigit :: "char \<Rightarrow> bool" where
  "isdigit c \<longleftrightarrow> 48 \<le> (of_char c :: nat) \<and> (of_char c :: nat) \<le> 57"

fun digits_value :: "nat \<Rightarrow> string \<Rightarrow> nat" where
  "digits_value acc [] = acc"
| "digits_value acc (c # cs) = digits_value (10 * acc + (of_char c - 48)) cs"

definition ULONG_MAX :: nat where
  "ULONG_MAX = 2 ^ 64 - 1"

definition strtoul :: "string \<Rightarrow> 64 word \<times> nat" where
  "strtoul nptr =
     (let ws = takeWhile isspace nptr;
          s1 = drop (length ws) nptr;
          sign = (if deref s1 = CHR ''-'' \<or> deref s1 = CHR ''+'' then 1 else 0);
          ds = takeWhile isdigit (drop sign s1);
          n = digits_value 0 ds
      in if ds = [] then (0, 0)
         else (if ULONG_MAX < n then of_nat ULONG_MAX
               else if deref s1 = CHR ''-'' then - of_nat n
               else of_nat n,
               length ws + sign + length ds))"

definition c_json_read_u64 :: "CJson \<Rightarrow> (err + 64 word) \<times> CJson" where
  "c_json_read_u64 json =
    (case poison json of
       Some e \<Rightarrow> (Inl e, json)
     | None \<Rightarrow>
        if states json ! level json = CHR ''{'' then latch C_JSON_E_INVALID_TYPE json
        else if deref (p json) = CHR ''-'' then latch C_JSON_E_INVALID_TYPE json
        else
          let (number, n) = strtoul (p json);
              end = ptr_add n (p json)
          in if n = 0 \<or> deref end = CHR ''.'' \<or> deref end = CHR ''e'' \<or> deref end = CHR ''E''
             then latch C_JSON_E_INVALID_TYPE json
             else
               (case c_json_advance (json\<lparr>p := end\<rparr>) of
                  (Inl r, json') \<Rightarrow> (Inl r, json')
                | (Inr _, json') \<Rightarrow> (Inr number, json')))"

subsection \<open>Containers\<close>

definition c_json_open_array :: "CJson \<Rightarrow> (err + unit) \<times> CJson" where
  "c_json_open_array json =
    (case poison json of
       Some e \<Rightarrow> (Inl e, json)
     | None \<Rightarrow>
        if states json ! level json = CHR ''{'' then latch C_JSON_E_INVALID_TYPE json
        else if deref (p json) \<noteq> CHR ''['' then latch C_JSON_E_INVALID_TYPE json
        else if level json \<ge> n_states json then latch C_JSON_E_DEPTH_OVERFLOW json
        else
          (Inr (), json\<lparr>p := skip_space (ptr_add 1 (p json)),
                         level := level json + 1,
                         states := (states json)[level json + 1 := CHR ''['']\<rparr>))"

text \<open>
  \<^verbatim>\<open>json->level -= 1\<close> on a \<^verbatim>\<open>size_t\<close>: at 0 it wraps around to
  \<^verbatim>\<open>SIZE_MAX\<close> (64 bits).
\<close>

definition size_dec :: "nat \<Rightarrow> nat" where
  "size_dec n = (if n = 0 then 2 ^ 64 - 1 else n - 1)"

definition c_json_close_array :: "CJson \<Rightarrow> (err + unit) \<times> CJson" where
  "c_json_close_array json =
    (case poison json of
       Some e \<Rightarrow> (Inl e, json)
     | None \<Rightarrow>
        if states json ! level json \<noteq> CHR ''['' \<and> states json ! level json \<noteq> CHR '',''
        then latch C_JSON_E_INVALID_TYPE json
        else if deref (p json) \<noteq> CHR '']'' then latch C_JSON_E_INVALID_JSON json
        else c_json_advance (json\<lparr>p := ptr_add 1 (p json), level := size_dec (level json)\<rparr>))"

definition c_json_open_object :: "CJson \<Rightarrow> (err + unit) \<times> CJson" where
  "c_json_open_object json =
    (case poison json of
       Some e \<Rightarrow> (Inl e, json)
     | None \<Rightarrow>
        if states json ! level json = CHR ''{'' then latch C_JSON_E_INVALID_TYPE json
        else if deref (p json) \<noteq> CHR ''{'' then latch C_JSON_E_INVALID_TYPE json
        else if level json \<ge> n_states json then latch C_JSON_E_DEPTH_OVERFLOW json
        else
          let json' = json\<lparr>p := skip_space (ptr_add 1 (p json))\<rparr>
          in if deref (p json') \<noteq> CHR 0x22 \<and> deref (p json') \<noteq> CHR ''}''
             then latch C_JSON_E_INVALID_JSON json'
             else (Inr (), json'\<lparr>level := level json' + 1,
                                  states := (states json')[level json' + 1 := CHR ''{'']\<rparr>))"

definition c_json_close_object :: "CJson \<Rightarrow> (err + unit) \<times> CJson" where
  "c_json_close_object json =
    (case poison json of
       Some e \<Rightarrow> (Inl e, json)
     | None \<Rightarrow>
        if states json ! level json \<noteq> CHR ''{'' \<and> states json ! level json \<noteq> CHR '':''
        then latch C_JSON_E_INVALID_TYPE json
        else if deref (p json) \<noteq> CHR ''}'' then latch C_JSON_E_INVALID_JSON json
        else c_json_advance (json\<lparr>p := ptr_add 1 (p json), level := size_dec (level json)\<rparr>))"


subsection \<open>c\_json\_read\_null, c\_json\_read\_bool, c\_json\_read\_f64\<close>

text \<open>
  \<^verbatim>\<open>strncmp(json->p, lit, strlen(lit))\<close> is not 0: the first \<open>length lit\<close> bytes
  of the string differ from the literal (a literal holds no byte 0, so a shorter string
  differs at its terminator).
\<close>

definition strncmp_ne :: "string \<Rightarrow> string \<Rightarrow> bool" where
  "strncmp_ne s lit \<longleftrightarrow> take (length lit) s \<noteq> lit"

definition c_json_read_null :: "CJson \<Rightarrow> (err + unit) \<times> CJson" where
  "c_json_read_null json =
    (case poison json of
       Some e \<Rightarrow> (Inl e, json)
     | None \<Rightarrow>
        if states json ! level json = CHR ''{'' then latch C_JSON_E_INVALID_TYPE json
        else if deref (p json) = CHR ''n'' then
          (if strncmp_ne (p json) ''null'' then latch C_JSON_E_INVALID_JSON json
           else c_json_advance (json\<lparr>p := ptr_add (length ''null'') (p json)\<rparr>))
        else latch C_JSON_E_INVALID_TYPE json)"

text \<open>
  \<^verbatim>\<open>c_json_read_bool\<close> tests the state of the level before it tests
  \<^verbatim>\<open>json->poison\<close>; the model keeps the order of the source.
\<close>

definition c_json_read_bool :: "CJson \<Rightarrow> (err + bool) \<times> CJson" where
  "c_json_read_bool json =
    (if states json ! level json = CHR ''{'' then latch C_JSON_E_INVALID_TYPE json
     else
       case poison json of
         Some e \<Rightarrow> (Inl e, json)
       | None \<Rightarrow>
          if deref (p json) = CHR ''t'' then
            (if strncmp_ne (p json) ''true'' then latch C_JSON_E_INVALID_JSON json
             else
               (case c_json_advance (json\<lparr>p := ptr_add (length ''true'') (p json)\<rparr>) of
                  (Inl r, json') \<Rightarrow> (Inl r, json')
                | (Inr _, json') \<Rightarrow> (Inr True, json')))
          else if deref (p json) = CHR ''f'' then
            (if strncmp_ne (p json) ''false'' then latch C_JSON_E_INVALID_JSON json
             else
               (case c_json_advance (json\<lparr>p := ptr_add (length ''false'') (p json)\<rparr>) of
                  (Inl r, json') \<Rightarrow> (Inl r, json')
                | (Inr _, json') \<Rightarrow> (Inr False, json')))
          else latch C_JSON_E_INVALID_TYPE json)"

text \<open>
  \<^verbatim>\<open>strtod\<close> belongs to the C library and computes a floating-point number. It is
  a parameter of the model: a function from the string to the number (of any type
  \<open>'f\<close>) and the number of bytes before \<^verbatim>\<open>end\<close>.
\<close>

definition c_json_read_f64 :: "(string \<Rightarrow> 'f \<times> nat) \<Rightarrow> CJson \<Rightarrow> (err + 'f) \<times> CJson" where
  "c_json_read_f64 strtod json =
    (case poison json of
       Some e \<Rightarrow> (Inl e, json)
     | None \<Rightarrow>
        if states json ! level json = CHR ''{'' then latch C_JSON_E_INVALID_TYPE json
        else
          let (number, n) = strtod (p json);
              end = ptr_add n (p json)
          in if n = 0 then latch C_JSON_E_INVALID_JSON json
             else
               (case c_json_advance (json\<lparr>p := end\<rparr>) of
                  (Inl r, json') \<Rightarrow> (Inl r, json')
                | (Inr _, json') \<Rightarrow> (Inr number, json')))"

subsection \<open>c\_json\_peek and c\_json\_more\<close>

text \<open>
  Both functions only read the object, so the model returns the result alone.
  \<open>None\<close> is the result -1 of \<^verbatim>\<open>c_json_peek\<close>.
\<close>

definition c_json_peek :: "CJson \<Rightarrow> json_type option" where
  "c_json_peek json =
    (case poison json of
       Some _ \<Rightarrow> None
     | None \<Rightarrow>
        let c = deref (p json) in
        if c = CHR ''['' then Some C_JSON_TYPE_ARRAY
        else if c = CHR ''{'' then Some C_JSON_TYPE_OBJECT
        else if c = CHR 0x22 then Some C_JSON_TYPE_STRING
        else if isdigit c \<or> c = CHR ''-'' then Some C_JSON_TYPE_NUMBER
        else if c = CHR ''t'' \<or> c = CHR ''f'' then Some C_JSON_TYPE_BOOLEAN
        else if c = CHR ''n'' then Some C_JSON_TYPE_NULL
        else None)"

definition c_json_more :: "CJson \<Rightarrow> bool" where
  "c_json_more json =
    (case poison json of
       Some _ \<Rightarrow> False
     | None \<Rightarrow>
        if deref (p json) = CHR 0x00 then False
        else if states json ! level json = CHR ''['' then deref (p json) \<noteq> CHR '']''
        else if states json ! level json = CHR ''{'' \<or> states json ! level json = CHR '':''
        then deref (p json) \<noteq> CHR ''}''
        else True)"

subsection \<open>c\_json\_read\_utf16\_unit and c\_json\_write\_utf8\<close>

text \<open>The \<^verbatim>\<open>switch\<close> on \<^verbatim>\<open>p[i]\<close>: the value of a hexadecimal digit.\<close>

definition hex_digit :: "char \<Rightarrow> 8 word option" where
  "hex_digit c =
     (let n = (of_char c :: nat) in
      if 48 \<le> n \<and> n \<le> 57 then Some (of_char c - of_char (CHR ''0''))
      else if 97 \<le> n \<and> n \<le> 102 then Some (of_char c - of_char (CHR ''a'') + 0x0a)
      else if 65 \<le> n \<and> n \<le> 70 then Some (of_char c - of_char (CHR ''A'') + 0x0a)
      else None)"

text \<open>
  The loop over \<open>i < 4\<close> returns at the first byte that is no digit. The shifts are
  computed in \<^verbatim>\<open>int\<close> (32 bits) and stored in the \<^verbatim>\<open>uint16_t\<close>.
\<close>

definition c_json_read_utf16_unit :: "string \<Rightarrow> err + 16 word" where
  "c_json_read_utf16_unit s =
     (case those (map (\<lambda>i. hex_digit (deref (ptr_add i s))) [0, 1, 2, 3]) of
        None \<Rightarrow> Inl C_JSON_E_INVALID_JSON
      | Some digits \<Rightarrow>
          Inr (ucast (push_bit 12 (ucast (digits ! 0) :: 32 word)
                      OR push_bit 8 (ucast (digits ! 1))
                      OR push_bit 4 (ucast (digits ! 2))
                      OR ucast (digits ! 3))))"

text \<open>
  The memory stream of \<^verbatim>\<open>c_json_read_string\<close> can fail: \<^verbatim>\<open>open_memstream\<close>
  may return NULL and every \<^verbatim>\<open>fputc\<close> may return a negative value. What the
  stream does during one call is a parameter: it cannot be opened, its \<open>n\<close>-th
  \<^verbatim>\<open>fputc\<close> (counted from 0) is the first to fail, or it never fails. The
  stream's content is the list of the bytes written so far.
\<close>

datatype memstream = OpenFails | PutFailsAt nat | NeverFails

definition fputc :: "memstream \<Rightarrow> char \<Rightarrow> string \<Rightarrow> string option" where
  "fputc env c stream = (if env = PutFailsAt (length stream) then None else Some (stream @ [c]))"

fun fputcs :: "memstream \<Rightarrow> string \<Rightarrow> string \<Rightarrow> err + string" where
  "fputcs env [] stream = Inr stream"
| "fputcs env (c # cs) stream =
     (case fputc env c stream of
        None \<Rightarrow> Inl ENOTRECOVERABLE
      | Some stream' \<Rightarrow> fputcs env cs stream')"

text \<open>\<^verbatim>\<open>(char)x\<close> for a 32-bit \<open>x\<close>: its low 8 bits.\<close>

definition to_char :: "32 word \<Rightarrow> char" where
  "to_char x = char_of (unat x)"

text \<open>The result \<open>None\<close> is the failed \<^verbatim>\<open>assert(0)\<close> of the default case.\<close>

definition c_json_write_utf8 :: "memstream \<Rightarrow> 32 word \<Rightarrow> string \<Rightarrow> (err + string) option" where
  "c_json_write_utf8 env cp stream =
     (if cp \<le> 0x007F then
        Some (fputcs env [to_char cp] stream)
      else if cp \<le> 0x07FF then
        Some (fputcs env [to_char (0xc0 OR drop_bit 6 cp),
                          to_char (0x80 OR (cp AND 0x3f))] stream)
      else if cp \<le> 0xFFFF then
        Some (fputcs env [to_char (0xe0 OR drop_bit 12 cp),
                          to_char (0x80 OR (drop_bit 6 cp AND 0x3f)),
                          to_char (0x80 OR (cp AND 0x3f))] stream)
      else if cp \<le> 0x10FFFF then
        Some (fputcs env [to_char (0xf0 OR drop_bit 18 cp),
                          to_char (0x80 OR (drop_bit 12 cp AND 0x3f)),
                          to_char (0x80 OR (drop_bit 6 cp AND 0x3f)),
                          to_char (0x80 OR (cp AND 0x3f))] stream)
      else None)"

subsection \<open>c\_json\_read\_string\<close>

text \<open>
  The eight escapes of one character: each case of the \<^verbatim>\<open>switch\<close> steps over the
  character and writes one byte.
\<close>

definition simple_escape :: "char \<Rightarrow> char option" where
  "simple_escape c =
     (if c = CHR 0x22 then Some (CHR 0x22)
      else if c = CHR 0x5C then Some (CHR 0x5C)
      else if c = CHR ''/'' then Some (CHR ''/'')
      else if c = CHR ''b'' then Some (CHR 0x08)
      else if c = CHR ''f'' then Some (CHR 0x0C)
      else if c = CHR ''n'' then Some (CHR 0x0A)
      else if c = CHR ''r'' then Some (CHR 0x0D)
      else if c = CHR ''t'' then Some (CHR 0x09)
      else None)"

text \<open>
  \<^verbatim>\<open>case 'u'\<close>, from behind the \<^verbatim>\<open>u\<close> up to the call of
  \<^verbatim>\<open>c_json_write_utf8\<close>: the code point and the cursor behind the escape, or the
  error and the cursor where the function returned.
\<close>

definition read_string_escape_u :: "string \<Rightarrow> (err \<times> string) + (32 word \<times> string)" where
  "read_string_escape_u s0 =
     (case c_json_read_utf16_unit s0 of
        Inl r \<Rightarrow> Inl (r, s0)
      | Inr cu \<Rightarrow>
          let s1 = ptr_add 4 s0 in
          if 0xD800 \<le> cu \<and> cu \<le> 0xDBFF then
            (let cp = 0x10000 + push_bit 10 (ucast cu - 0xD800) in
             if deref s1 = CHR 0x5C \<and> deref (ptr_add 1 s1) = CHR ''u'' then
               (let s2 = ptr_add 2 s1 in
                case c_json_read_utf16_unit s2 of
                  Inl r \<Rightarrow> Inl (r, s2)
                | Inr cu' \<Rightarrow>
                    let s3 = ptr_add 4 s2 in
                    if cu' < 0xDC00 \<or> cu' > 0xDFFF then Inl (C_JSON_E_INVALID_JSON, s3)
                    else Inr (cp + (ucast cu' - 0xDC00), s3))
             else Inl (C_JSON_E_INVALID_JSON, s1))
          else if 0xDC00 \<le> cu \<and> cu \<le> 0xDFFF then Inl (C_JSON_E_INVALID_JSON, s1)
          else Inr (ucast cu, s1))"

text \<open>
  The \<^verbatim>\<open>while (*json->p != '"')\<close> loop, from a cursor and a stream content. It
  ends with the error and the cursor of a \<^verbatim>\<open>return\<close> inside the loop (\<open>Inl\<close>), or
  with the cursor at the closing quote and the stream's content (\<open>Inr\<close>); \<open>None\<close> is
  the failed assertion of \<^verbatim>\<open>c_json_write_utf8\<close>.
\<close>

function read_string_loop ::
  "memstream \<Rightarrow> string \<Rightarrow> string \<Rightarrow> ((err \<times> string) + (string \<times> string)) option" where
  "read_string_loop env s stream =
    (if deref s = CHR 0x22 then Some (Inr (s, stream))
     else if (of_char (deref s) :: nat) < 0x20 then Some (Inl (C_JSON_E_INVALID_JSON, s))
     else if deref s = CHR 0x5C then
       (case simple_escape (deref (ptr_add 1 s)) of
          Some c \<Rightarrow>
            (case fputc env c stream of
               None \<Rightarrow> Some (Inl (ENOTRECOVERABLE, ptr_add 2 s))
             | Some stream' \<Rightarrow> read_string_loop env (ptr_add 2 s) stream')
        | None \<Rightarrow>
            if deref (ptr_add 1 s) = CHR ''u'' then
              (case read_string_escape_u (ptr_add 2 s) of
                 Inl (r, s') \<Rightarrow> Some (Inl (r, s'))
               | Inr (cp, s') \<Rightarrow>
                   (case c_json_write_utf8 env cp stream of
                      None \<Rightarrow> None
                    | Some (Inl r) \<Rightarrow> Some (Inl (r, s'))
                    | Some (Inr stream') \<Rightarrow> read_string_loop env s' stream'))
            else Some (Inl (C_JSON_E_INVALID_JSON, ptr_add 1 s)))
     else
       (case fputc env (deref s) stream of
          None \<Rightarrow> Some (Inl (ENOTRECOVERABLE, s))
        | Some stream' \<Rightarrow> read_string_loop env (ptr_add 1 s) stream'))"
  by pat_completeness auto
termination
proof (relation "measure (\<lambda>(env, s, stream). length s)")
  show "wf (measure (\<lambda>(env, s, stream). length s))" by simp
next
  fix env :: memstream and s stream :: string and c stream'
  assume "\<not> (of_char (deref s) :: nat) < 0x20"
  then have "s \<noteq> []" by (auto simp: deref_def)
  then show "((env, ptr_add 2 s, stream'), (env, s, stream)) \<in> measure (\<lambda>(env, s, stream). length s)"
    by (simp add: ptr_add_def)
next
  fix env :: memstream and s stream :: string and x y cp s' stream'
  assume "\<not> (of_char (deref s) :: nat) < 0x20"
    and u: "read_string_escape_u (ptr_add 2 s) = Inr x" "(cp, s') = x"
  then have "s \<noteq> []" by (auto simp: deref_def)
  moreover from u have "length s' \<le> length (ptr_add 2 s)"
    by (auto simp: read_string_escape_u_def ptr_add_def Let_def split: sum.splits if_splits)
  ultimately show "((env, s', stream'), (env, s, stream)) \<in> measure (\<lambda>(env, s, stream). length s)"
    by (cases s) (auto simp: ptr_add_def)
next
  fix env :: memstream and s stream :: string and stream'
  assume "\<not> (of_char (deref s) :: nat) < 0x20"
  then have "s \<noteq> []" by (auto simp: deref_def)
  then show "((env, ptr_add 1 s, stream'), (env, s, stream)) \<in> measure (\<lambda>(env, s, stream). length s)"
    by (simp add: ptr_add_def)
qed

declare read_string_loop.simps [simp del]

text \<open>
  \<^verbatim>\<open>*stringp\<close> is a \<^verbatim>\<open>char *\<close> to the buffer of the memory stream, which holds
  the bytes written and a 0 behind them; the function hands out no length. The string that
  the caller receives is the bytes before the first 0: a decoded \<^verbatim>\<open>\u0000\<close> ends it.
\<close>

definition c_string :: "char list \<Rightarrow> string" where
  "c_string bytes = takeWhile (\<lambda>c. c \<noteq> CHR 0x00) bytes"

definition c_json_read_string :: "memstream \<Rightarrow> CJson \<Rightarrow> ((err + string) \<times> CJson) option" where
  "c_json_read_string env json =
    (case poison json of
       Some e \<Rightarrow> Some (Inl e, json)
     | None \<Rightarrow>
        if deref (p json) \<noteq> CHR 0x22 then Some (latch C_JSON_E_INVALID_TYPE json)
        else if env = OpenFails then Some (latch ENOTRECOVERABLE json)
        else
          (case read_string_loop env (ptr_add 1 (p json)) [] of
             None \<Rightarrow> None
           | Some (Inl (r, s)) \<Rightarrow> Some (latch r (json\<lparr>p := s\<rparr>))
           | Some (Inr (s, string)) \<Rightarrow>
               (case c_json_advance (json\<lparr>p := ptr_add 1 s\<rparr>) of
                  (Inl r, json') \<Rightarrow> Some (Inl r, json')
                | (Inr _, json') \<Rightarrow> Some (Inr (c_string string), json'))))"


section \<open>Sequences of calls\<close>

text \<open>
  The public functions, as the operations a caller can invoke on one object.
  \<open>ReadString\<close> carries what the memory stream does during that call and
  \<open>ReadF64\<close> the \<^verbatim>\<open>strtod\<close> of the C library.
\<close>

datatype 'f op =
    Begin string
  | End
  | Peek
  | More
  | ReadNull
  | ReadString memstream
  | ReadU64
  | ReadF64 "string \<Rightarrow> 'f \<times> nat"
  | ReadBool
  | OpenArray
  | CloseArray
  | OpenObject
  | CloseObject

datatype 'f reply =
    Void
  | Ret "err + unit"
  | RetString "err + string"
  | RetU64 "err + 64 word"
  | RetF64 "err + 'f"
  | RetBool "err + bool"
  | RetMore bool
  | RetPeek "json_type option"

text \<open>
  Whether a call evaluates \<^verbatim>\<open>*json->p\<close> (or hands \<^verbatim>\<open>json->p\<close> to
  \<^verbatim>\<open>strncmp\<close>, \<^verbatim>\<open>strtoul\<close> or \<^verbatim>\<open>strtod\<close>): the tests that each function
  makes before it first reads the cursor.
\<close>

fun reads_cursor :: "'f op \<Rightarrow> CJson \<Rightarrow> bool" where
  "reads_cursor (Begin s) json = False"
| "reads_cursor End json = (poison json = None \<and> level json = 0)"
| "reads_cursor Peek json = (poison json = None)"
| "reads_cursor More json = (poison json = None)"
| "reads_cursor ReadNull json = (poison json = None \<and> states json ! level json \<noteq> CHR ''{'')"
| "reads_cursor (ReadString env) json = (poison json = None)"
| "reads_cursor ReadU64 json = (poison json = None \<and> states json ! level json \<noteq> CHR ''{'')"
| "reads_cursor (ReadF64 strtod) json =
     (poison json = None \<and> states json ! level json \<noteq> CHR ''{'')"
| "reads_cursor ReadBool json = (states json ! level json \<noteq> CHR ''{'' \<and> poison json = None)"
| "reads_cursor OpenArray json = (poison json = None \<and> states json ! level json \<noteq> CHR ''{'')"
| "reads_cursor CloseArray json =
     (poison json = None \<and>
      (states json ! level json = CHR ''['' \<or> states json ! level json = CHR '',''))"
| "reads_cursor OpenObject json = (poison json = None \<and> states json ! level json \<noteq> CHR ''{'')"
| "reads_cursor CloseObject json =
     (poison json = None \<and>
      (states json ! level json = CHR ''{'' \<or> states json ! level json = CHR '':''))"

text \<open>
  One call: the reply and the object afterwards. The result is \<open>None\<close> when the call
  has no defined behaviour: the assertion of \<^verbatim>\<open>c_json_begin_read\<close> or of
  \<^verbatim>\<open>c_json_write_utf8\<close> fails, or the call reads the cursor while no session is
  open (\<^verbatim>\<open>json->p\<close> is NULL then).
\<close>

definition call :: "'f op \<Rightarrow> CJson \<Rightarrow> ('f reply \<times> CJson) option" where
  "call x json =
    (if input json = None \<and> reads_cursor x json then None
     else
       case x of
         Begin s \<Rightarrow> map_option (Pair Void) (c_json_begin_read json s)
       | End \<Rightarrow> Some (map_prod Ret id (c_json_end_read json))
       | Peek \<Rightarrow> Some (RetPeek (c_json_peek json), json)
       | More \<Rightarrow> Some (RetMore (c_json_more json), json)
       | ReadNull \<Rightarrow> Some (map_prod Ret id (c_json_read_null json))
       | ReadString env \<Rightarrow> map_option (map_prod RetString id) (c_json_read_string env json)
       | ReadU64 \<Rightarrow> Some (map_prod RetU64 id (c_json_read_u64 json))
       | ReadF64 strtod \<Rightarrow> Some (map_prod RetF64 id (c_json_read_f64 strtod json))
       | ReadBool \<Rightarrow> Some (map_prod RetBool id (c_json_read_bool json))
       | OpenArray \<Rightarrow> Some (map_prod Ret id (c_json_open_array json))
       | CloseArray \<Rightarrow> Some (map_prod Ret id (c_json_close_array json))
       | OpenObject \<Rightarrow> Some (map_prod Ret id (c_json_open_object json))
       | CloseObject \<Rightarrow> Some (map_prod Ret id (c_json_close_object json)))"

text \<open>A sequence of calls: the replies in order and the object at the end.\<close>

fun trace :: "'f op list \<Rightarrow> CJson \<Rightarrow> ('f reply list \<times> CJson) option" where
  "trace [] json = Some ([], json)"
| "trace (x # xs) json =
     (case call x json of
        None \<Rightarrow> None
      | Some (r, json') \<Rightarrow>
          (case trace xs json' of
             None \<Rightarrow> None
           | Some (rs, json'') \<Rightarrow> Some (r # rs, json'')))"

section \<open>Reference definitions\<close>

text \<open>
  The invariant of the nesting stack for a decoder of maximum depth \<open>d\<close>: the
  array has its \<open>d + 1\<close> bytes, the level is at most \<open>d\<close>, and the byte of the
  root level is 0.
\<close>

definition stack_ok :: "nat \<Rightarrow> CJson \<Rightarrow> bool" where
  "stack_ok d json \<longleftrightarrow>
     n_states json = d \<and> length (states json) = d + 1 \<and> level json \<le> d \<and>
     states json ! 0 = CHR 0x00"

text \<open>
  The standard UTF-8 encoding of a code point, by range, as the spec words it:
  one byte up to \<open>0x7F\<close>, two up to \<open>0x7FF\<close>, three up to \<open>0xFFFF\<close>, four up
  to \<open>0x10FFFF\<close>. It is written with division and remainder, independently of the
  shifts and masks of \<^verbatim>\<open>c_json_write_utf8\<close>, and compared with that function in
  \<open>write_utf8_refines\<close>.
\<close>

definition utf8_encode :: "nat \<Rightarrow> string" where
  "utf8_encode n =
     (if n < 0x80 then [char_of n]
      else if n < 0x800 then [char_of (0xC0 + n div 0x40), char_of (0x80 + n mod 0x40)]
      else if n < 0x10000 then
        [char_of (0xE0 + n div 0x1000), char_of (0x80 + n div 0x40 mod 0x40),
         char_of (0x80 + n mod 0x40)]
      else
        [char_of (0xF0 + n div 0x40000), char_of (0x80 + n div 0x1000 mod 0x40),
         char_of (0x80 + n div 0x40 mod 0x40), char_of (0x80 + n mod 0x40)])"

text \<open>
  The value of hexadecimal digits, upper or lower case, read from the left: the number
  that the four digits of a \<^verbatim>\<open>\uXXXX\<close> escape denote. It is compared with
  \<^verbatim>\<open>c_json_read_utf16_unit\<close> in \<open>utf16_unit_refines\<close>.
\<close>

definition hex_digit_value :: "char \<Rightarrow> nat option" where
  "hex_digit_value c =
     (if c \<in> set ''0123456789'' then Some (of_char c - of_char (CHR ''0''))
      else if c \<in> set ''abcdef'' then Some (of_char c - of_char (CHR ''a'') + 10)
      else if c \<in> set ''ABCDEF'' then Some (of_char c - of_char (CHR ''A'') + 10)
      else None)"

fun hex_value :: "nat \<Rightarrow> string \<Rightarrow> nat option" where
  "hex_value acc [] = Some acc"
| "hex_value acc (c # cs) =
     (case hex_digit_value c of None \<Rightarrow> None | Some d \<Rightarrow> hex_value (16 * acc + d) cs)"

text \<open>
  A byte of a string that is no quote, no backslash and no control character: the loop
  of \<^verbatim>\<open>c_json_read_string\<close> copies it to the stream.
\<close>

definition plain :: "char \<Rightarrow> bool" where
  "plain c \<longleftrightarrow> c \<noteq> CHR 0x22 \<and> c \<noteq> CHR 0x5C \<and> 0x20 \<le> (of_char c :: nat)"

text \<open>
  The string starts with an escape \<^verbatim>\<open>\uYYYY\<close> whose four digits denote a low
  surrogate, a number in \<open>0xDC00..0xDFFF\<close>.
\<close>

definition low_surrogate_escape :: "string \<Rightarrow> bool" where
  "low_surrogate_escape s =
     (case s of
        b # u # l1 # l2 # l3 # l4 # _ \<Rightarrow>
          b = CHR 0x5C \<and> u = CHR ''u'' \<and>
          (case hex_value 0 [l1, l2, l3, l4] of
             None \<Rightarrow> False
           | Some lo \<Rightarrow> 0xDC00 \<le> lo \<and> lo \<le> 0xDFFF)
      | _ \<Rightarrow> False)"

section \<open>Evaluation\<close>

text \<open>
  The object of \<^verbatim>\<open>c_json_new\<close>: with its \<open>max_depth + 1\<close> state bytes when the
  size of the allocation does not wrap around, and with none when it does.
\<close>

lemma unat_alloc_size:
  "unat (sizeof_CJson + max_depth + 1) = (unat max_depth + 41) mod 2 ^ 64"
proof -
  have "sizeof_CJson + max_depth + 1 = max_depth + 41"
    by (simp add: sizeof_CJson_def)
  then have "unat (sizeof_CJson + max_depth + 1) = unat (max_depth + 41)"
    by (rule arg_cong)
  also have "\<dots> = (unat max_depth + unat (41 :: 64 word)) mod 2 ^ 64"
    by (simp only: unat_word_ariths) simp
  also have "unat (41 :: 64 word) = 41" by simp
  finally show ?thesis .
qed

lemma c_json_new_unwrapped:
  assumes "unat sizeof_CJson + unat max_depth + 1 < 2 ^ 64"
  shows "c_json_new max_depth =
     \<lparr>input = None, p = [], poison = None, n_states = unat max_depth, level = 0,
      states = replicate (unat max_depth + 1) (CHR 0x00)\<rparr>"
proof -
  have "unat max_depth + 41 < 2 ^ 64"
    using assms by (simp add: sizeof_CJson_def)
  then have "unat (sizeof_CJson + max_depth + 1) = unat max_depth + 41"
    unfolding unat_alloc_size by (rule mod_less)
  then show ?thesis by (simp add: c_json_new_def sizeof_CJson_def)
qed

lemma c_json_new_wrapped:
  assumes "2 ^ 64 \<le> unat sizeof_CJson + unat max_depth + 1"
  shows "states (c_json_new max_depth) = []"
proof -
  define m where "m = unat max_depth"
  define N :: nat where "N = 2 ^ 64"
  have m: "m < N" unfolding m_def N_def using unsigned_less [of max_depth] by simp
  have ge: "N \<le> m + 41" using assms by (simp add: sizeof_CJson_def m_def N_def)
  have "41 < N" by (simp add: N_def)
  have "(m + 41) mod N = m + 41 - N"
    using m ge \<open>41 < N\<close> by (simp add: mod_if)
  also have "\<dots> \<le> 40" using m by linarith
  finally have "unat (sizeof_CJson + max_depth + 1) \<le> 40"
    unfolding unat_alloc_size m_def N_def .
  then show ?thesis by (simp add: c_json_new_def sizeof_CJson_def)
qed

text \<open>
  The decoder has its capacity of \<open>max_depth + 1\<close> state bytes exactly when the size
  of the allocation does not wrap around.
\<close>

lemma c_json_new_capacity:
  "length (states (c_json_new max_depth)) = unat max_depth + 1 \<longleftrightarrow>
   unat sizeof_CJson + unat max_depth + 1 < 2 ^ 64"
proof
  assume "unat sizeof_CJson + unat max_depth + 1 < 2 ^ 64"
  then show "length (states (c_json_new max_depth)) = unat max_depth + 1"
    by (simp add: c_json_new_unwrapped)
next
  assume l: "length (states (c_json_new max_depth)) = unat max_depth + 1"
  show "unat sizeof_CJson + unat max_depth + 1 < 2 ^ 64"
  proof (rule ccontr)
    assume "\<not> unat sizeof_CJson + unat max_depth + 1 < 2 ^ 64"
    then have "states (c_json_new max_depth) = []"
      by (intro c_json_new_wrapped) simp
    with l show False by simp
  qed
qed

text \<open>
  At \<^verbatim>\<open>SIZE_MAX\<close> the size is \<^verbatim>\<open>sizeof(*json)\<close>: the object has its fixed fields
  and no state byte.
\<close>

lemma c_json_new_at_SIZE_MAX: "states (c_json_new 0xFFFFFFFFFFFFFFFF) = []"
  by (rule c_json_new_wrapped) (simp add: sizeof_CJson_def)

text \<open>The defining equations that evaluate a call on a concrete input.\<close>

lemmas run_simps =
  call_def c_json_new_unwrapped sizeof_CJson_def c_string_def
  c_json_begin_read_def c_json_end_read_def c_json_advance_def
  c_json_read_null_def c_json_read_bool_def c_json_read_u64_def c_json_read_f64_def
  c_json_read_string_def c_json_peek_def c_json_more_def
  c_json_open_array_def c_json_close_array_def c_json_open_object_def c_json_close_object_def
  c_json_read_utf16_unit_def c_json_write_utf8_def read_string_loop.simps
  read_string_escape_u_def simple_escape_def hex_digit_def fputc_def to_char_def
  strtoul_def ULONG_MAX_def isspace_def isdigit_def strncmp_ne_def size_dec_def
  deref_def ptr_add_def latch_def Let_def

section \<open>The latched error\<close>

text \<open>
  With an error latched, \<^verbatim>\<open>c_json_advance\<close> and every reader and container
  function that tests \<^verbatim>\<open>json->poison\<close> first returns that error and leaves
  the object as it is. \<^verbatim>\<open>c_json_read_bool\<close> does so only when the current level
  is not in the state \<^verbatim>\<open>'{'\<close>.
\<close>

lemma latched_error_returned:
  assumes "poison json = Some e"
  shows "c_json_advance json = (Inl e, json)"
    and "c_json_read_null json = (Inl e, json)"
    and "c_json_read_string env json = Some (Inl e, json)"
    and "c_json_read_u64 json = (Inl e, json)"
    and "c_json_read_f64 strtod json = (Inl e, json)"
    and "c_json_open_array json = (Inl e, json)"
    and "c_json_close_array json = (Inl e, json)"
    and "c_json_open_object json = (Inl e, json)"
    and "c_json_close_object json = (Inl e, json)"
    and "states json ! level json \<noteq> CHR ''{'' \<Longrightarrow> c_json_read_bool json = (Inl e, json)"
    and "fst (c_json_end_read json) = Inl e"
    and "poison (snd (c_json_end_read json)) = Some e"
  using assms
  by (simp_all add: c_json_advance_def c_json_read_null_def c_json_read_string_def
      c_json_read_u64_def c_json_read_f64_def c_json_open_array_def c_json_close_array_def
      c_json_open_object_def c_json_close_object_def c_json_read_bool_def c_json_end_read_def)

text \<open>
  C1 at a failing input. On \<^verbatim>\<open>{"a":1}\<close>, \<^verbatim>\<open>c_json_open_object\<close> succeeds
  and leaves the level in the state \<^verbatim>\<open>'{'\<close>; \<^verbatim>\<open>c_json_close_object\<close> then
  finds the cursor at the key and latches \<^verbatim>\<open>C_JSON_E_INVALID_JSON\<close>. The next
  call, \<^verbatim>\<open>c_json_read_bool\<close>, tests the state of the level before the latched
  error: it returns \<^verbatim>\<open>C_JSON_E_INVALID_TYPE\<close> and overwrites the latched error,
  and \<^verbatim>\<open>c_json_end_read\<close> returns the new one.
\<close>

theorem read_bool_replaces_latched_error:
  "trace [Begin ''{\"a\":1}'', OpenObject, CloseObject, ReadBool, End] (c_json_new 1) =
   Some ([Void, Ret (Inr ()), Ret (Inl C_JSON_E_INVALID_JSON),
          RetBool (Inl C_JSON_E_INVALID_TYPE), Ret (Inl C_JSON_E_INVALID_TYPE)],
         \<lparr>input = None, p = [], poison = Some C_JSON_E_INVALID_TYPE, n_states = 1, level = 0,
          states = [CHR 0x00, CHR ''{'']\<rparr>)"
  by (simp add: run_simps)

section \<open>Scenarios on concrete inputs\<close>

text \<open>
  C2 (as the code behaves). On the input \<^verbatim>\<open>[1,,2]\<close> the decoder does not accept
  the double comma: \<^verbatim>\<open>c_json_open_array\<close> and the first \<^verbatim>\<open>c_json_read_u64\<close>
  (which yields 1) succeed and leave the cursor at the second comma, in the state
  \<^verbatim>\<open>','\<close>; the second \<^verbatim>\<open>c_json_read_u64\<close> finds no digit there and fails with
  \<^verbatim>\<open>C_JSON_E_INVALID_TYPE\<close>, which \<^verbatim>\<open>c_json_close_array\<close> and
  \<^verbatim>\<open>c_json_end_read\<close> return again.
\<close>

theorem double_comma_rejected:
  "trace [Begin ''[1,,2]'', OpenArray, ReadU64, ReadU64, CloseArray, End] (c_json_new 1) =
   Some ([Void, Ret (Inr ()), RetU64 (Inr 1), RetU64 (Inl C_JSON_E_INVALID_TYPE),
          Ret (Inl C_JSON_E_INVALID_TYPE), Ret (Inl C_JSON_E_INVALID_TYPE)],
         \<lparr>input = None, p = [], poison = Some C_JSON_E_INVALID_TYPE, n_states = 1, level = 0,
          states = [CHR 0x00, CHR '','']\<rparr>)"
  by (simp add: run_simps)

text \<open>
  C2, the claim as stated, fails: the replies to the five calls on \<^verbatim>\<open>[1,,2]\<close> are
  not five successes with the numbers 1 and 2.
\<close>

theorem double_comma_not_accepted:
  "map_option fst
     (trace [Begin ''[1,,2]'', OpenArray, ReadU64, ReadU64, CloseArray, End] (c_json_new 1)) \<noteq>
   Some [Void, Ret (Inr ()), RetU64 (Inr 1), RetU64 (Inr 2), Ret (Inr ()), Ret (Inr ())]"
  by (simp add: run_simps)




section \<open>c\_json\_read\_u64\<close>

lemma isdigit_not_space: "isdigit c \<Longrightarrow> \<not> isspace c"
  by (auto simp: isdigit_def isspace_def)

lemma isdigit_not_sign: "isdigit c \<Longrightarrow> c \<noteq> CHR ''-'' \<and> c \<noteq> CHR ''+''"
  by (auto simp: isdigit_def)

lemma takeWhile_isdigit_run:
  assumes "\<forall>c\<in>set ds. isdigit c" and "\<not> isdigit (deref rest)"
  shows "takeWhile isdigit (ds @ rest) = ds"
proof -
  have "takeWhile isdigit rest = []"
    using assms(2) by (cases rest) (auto simp: deref_def)
  with assms(1) show ?thesis by (simp add: takeWhile_append2)
qed

text \<open>
  On a string that starts with a run of digits, \<^verbatim>\<open>strtoul\<close> converts exactly the
  run.
\<close>

lemma strtoul_digits:
  assumes "ds \<noteq> []" and "\<forall>c\<in>set ds. isdigit c" and "\<not> isdigit (deref rest)"
  shows "strtoul (ds @ rest) =
    (if ULONG_MAX < digits_value 0 ds then of_nat ULONG_MAX else of_nat (digits_value 0 ds),
     length ds)"
proof -
  obtain d ds' where ds: "ds = d # ds'" using assms(1) by (cases ds) auto
  then have d: "isdigit d" using assms(2) by simp
  have ws: "takeWhile isspace (ds @ rest) = []"
    using d ds by (simp add: isdigit_not_space)
  have sg: "deref (ds @ rest) \<noteq> CHR ''-''" "deref (ds @ rest) \<noteq> CHR ''+''"
    using d ds isdigit_not_sign [of d] by (simp_all add: deref_def)
  show ?thesis
    using assms(1) by (simp add: strtoul_def ws sg takeWhile_isdigit_run [OF assms(2,3)])
qed

text \<open>
  C6. On a decoder with no latched error, \<^verbatim>\<open>c_json_read_u64\<close> fails with
  \<^verbatim>\<open>C_JSON_E_INVALID_TYPE\<close> when the character at the cursor is \<^verbatim>\<open>-\<close>, and
  also when the cursor is at a non-empty run of decimal digits \<open>ds\<close> that is followed
  at once by \<^verbatim>\<open>.\<close>, \<^verbatim>\<open>e\<close> or \<^verbatim>\<open>E\<close>. In both cases the error is latched
  and the cursor stays where it was.
\<close>

theorem read_u64_rejects_non_integers:
  "(poison json = None \<and> deref (p json) = CHR ''-'' \<longrightarrow>
      c_json_read_u64 json =
        (Inl C_JSON_E_INVALID_TYPE, json\<lparr>poison := Some C_JSON_E_INVALID_TYPE\<rparr>)) \<and>
   (poison json = None \<and> p json = ds @ c # rest \<and> ds \<noteq> [] \<and> (\<forall>d\<in>set ds. isdigit d) \<and>
    (c = CHR ''.'' \<or> c = CHR ''e'' \<or> c = CHR ''E'') \<longrightarrow>
      c_json_read_u64 json =
        (Inl C_JSON_E_INVALID_TYPE, json\<lparr>poison := Some C_JSON_E_INVALID_TYPE\<rparr>))"
proof (intro conjI impI)
  assume "poison json = None \<and> deref (p json) = CHR ''-''"
  then show "c_json_read_u64 json =
      (Inl C_JSON_E_INVALID_TYPE, json\<lparr>poison := Some C_JSON_E_INVALID_TYPE\<rparr>)"
    by (simp add: c_json_read_u64_def latch_def)
next
  assume a: "poison json = None \<and> p json = ds @ c # rest \<and> ds \<noteq> [] \<and> (\<forall>d\<in>set ds. isdigit d) \<and>
    (c = CHR ''.'' \<or> c = CHR ''e'' \<or> c = CHR ''E'')"
  then have nd: "\<not> isdigit (deref (c # rest))"
    by (auto simp: deref_def isdigit_def)
  have "strtoul (p json) =
      (if ULONG_MAX < digits_value 0 ds then of_nat ULONG_MAX else of_nat (digits_value 0 ds),
       length ds)"
    using a strtoul_digits [OF _ _ nd, of ds] by simp
  moreover have "deref (ptr_add (length ds) (p json)) = c"
    using a by (simp add: ptr_add_def deref_def)
  ultimately show "c_json_read_u64 json =
      (Inl C_JSON_E_INVALID_TYPE, json\<lparr>poison := Some C_JSON_E_INVALID_TYPE\<rparr>)"
    using a by (auto simp: c_json_read_u64_def latch_def)
qed

text \<open>C6 at the inputs \<^verbatim>\<open>-1\<close> and \<^verbatim>\<open>12.5\<close>, read at the root.\<close>

theorem read_u64_rejects_non_integers_witness:
  "c_json_read_u64
     \<lparr>input = Some ''-1'', p = ''-1'', poison = None, n_states = 0, level = 0,
      states = [CHR 0x00]\<rparr> =
   (Inl C_JSON_E_INVALID_TYPE,
     \<lparr>input = Some ''-1'', p = ''-1'', poison = Some C_JSON_E_INVALID_TYPE, n_states = 0,
      level = 0, states = [CHR 0x00]\<rparr>) \<and>
   c_json_read_u64
     \<lparr>input = Some ''12.5'', p = ''12.5'', poison = None, n_states = 0, level = 0,
      states = [CHR 0x00]\<rparr> =
   (Inl C_JSON_E_INVALID_TYPE,
     \<lparr>input = Some ''12.5'', p = ''12.5'', poison = Some C_JSON_E_INVALID_TYPE, n_states = 0,
      level = 0, states = [CHR 0x00]\<rparr>)"
  using read_u64_rejects_non_integers [of
      "\<lparr>input = Some ''-1'', p = ''-1'', poison = None, n_states = 0, level = 0,
        states = [CHR 0x00]\<rparr>"
      "[]" "CHR ''.''" "[]"]
    read_u64_rejects_non_integers [of
      "\<lparr>input = Some ''12.5'', p = ''12.5'', poison = None, n_states = 0, level = 0,
        states = [CHR 0x00]\<rparr>"
      "''12''" "CHR ''.''" "''5''"]
  by (simp add: isdigit_def deref_def)

text \<open>
  C10. The cursor is at a run of decimal digits \<open>ds\<close> whose value is at least
  \<open>2 ^ 64\<close> (the run ends before \<open>rest\<close>, which starts with no digit and none of
  \<^verbatim>\<open>.\<close>, \<^verbatim>\<open>e\<close>, \<^verbatim>\<open>E\<close>), the decoder has no latched error and is
  not at an object key. Then \<^verbatim>\<open>c_json_read_u64\<close> reports no range error: it moves
  the cursor behind the digits, returns what \<^verbatim>\<open>c_json_advance\<close> returns there, and
  on success the number is \<open>2 ^ 64 - 1\<close>. At the root, where \<^verbatim>\<open>c_json_advance\<close>
  only skips white space, the call succeeds.
\<close>

theorem read_u64_saturates:
  assumes "poison json = None" and "states json ! level json \<noteq> CHR ''{''"
    and "p json = ds @ rest" and "ds \<noteq> []" and "\<forall>d\<in>set ds. isdigit d"
    and "\<not> isdigit (deref rest)"
    and "deref rest \<noteq> CHR ''.''" and "deref rest \<noteq> CHR ''e''" and "deref rest \<noteq> CHR ''E''"
    and "2 ^ 64 \<le> digits_value 0 ds"
  shows "c_json_read_u64 json =
      (case c_json_advance (json\<lparr>p := rest\<rparr>) of
         (Inl r, json') \<Rightarrow> (Inl r, json')
       | (Inr u, json') \<Rightarrow> (Inr 0xFFFFFFFFFFFFFFFF, json')) \<and>
    (states json ! level json = CHR 0x00 \<longrightarrow>
       c_json_read_u64 json = (Inr 0xFFFFFFFFFFFFFFFF, json\<lparr>p := skip_space rest\<rparr>))"
proof -
  have "strtoul (p json) = (0xFFFFFFFFFFFFFFFF, length ds)"
    using assms(3,10) strtoul_digits [OF assms(4,5,6)] by (simp add: ULONG_MAX_def)
  moreover have "ptr_add (length ds) (p json) = rest"
    using assms(3) by (simp add: ptr_add_def)
  moreover have "deref (p json) \<noteq> CHR ''-''"
    using assms(3,4,5) by (cases ds) (auto simp: deref_def isdigit_def)
  ultimately have r: "c_json_read_u64 json =
      (case c_json_advance (json\<lparr>p := rest\<rparr>) of
         (Inl r, json') \<Rightarrow> (Inl r, json')
       | (Inr u, json') \<Rightarrow> (Inr 0xFFFFFFFFFFFFFFFF, json'))"
    using assms(1,2,4,7,8,9) by (simp add: c_json_read_u64_def)
  have "states json ! level json = CHR 0x00 \<Longrightarrow>
      c_json_advance (json\<lparr>p := rest\<rparr>) = (Inr (), json\<lparr>p := skip_space rest\<rparr>)"
    using assms(1) by (simp add: c_json_advance_def)
  with r show ?thesis by simp
qed

text \<open>C10 at the input \<^verbatim>\<open>18446744073709551616\<close> (\<open>2 ^ 64\<close>), read at the root.\<close>

theorem read_u64_saturates_witness:
  "c_json_read_u64
     \<lparr>input = Some ''18446744073709551616'', p = ''18446744073709551616'', poison = None,
      n_states = 0, level = 0, states = [CHR 0x00]\<rparr> =
   (Inr 0xFFFFFFFFFFFFFFFF,
     \<lparr>input = Some ''18446744073709551616'', p = [], poison = None,
      n_states = 0, level = 0, states = [CHR 0x00]\<rparr>)"
  using read_u64_saturates [of
     "\<lparr>input = Some ''18446744073709551616'', p = ''18446744073709551616'', poison = None,
      n_states = 0, level = 0, states = [CHR 0x00]\<rparr>" "''18446744073709551616''" "[]"]
  by (simp add: isdigit_def deref_def c_json_advance_def)

section \<open>c\_json\_more\<close>

text \<open>
  C3 (as the code behaves). \<^verbatim>\<open>c_json_more\<close> changes nothing in the object (a call
  leaves it as it is). It returns true exactly when no error is latched, the cursor is
  not at the end of the input, the cursor is not at \<^verbatim>\<open>]\<close> if the level is in
  the state \<^verbatim>\<open>'['\<close>, and the cursor is not at \<^verbatim>\<open>}\<close> if the level is in
  the state \<^verbatim>\<open>'{'\<close> or \<^verbatim>\<open>':'\<close>. In the state \<^verbatim>\<open>','\<close> (behind a
  comma of an array) and at the root it is true whenever input is left and no error is
  latched, also with the cursor at \<^verbatim>\<open>]\<close>.
\<close>

theorem more_characterised:
  "(c_json_more json \<longleftrightarrow>
      poison json = None \<and> deref (p json) \<noteq> CHR 0x00 \<and>
      (states json ! level json = CHR ''['' \<longrightarrow> deref (p json) \<noteq> CHR '']'') \<and>
      (states json ! level json = CHR ''{'' \<or> states json ! level json = CHR '':'' \<longrightarrow>
         deref (p json) \<noteq> CHR ''}'')) \<and>
   (call More json =
      (if input json = None \<and> poison json = None then None
       else Some (RetMore (c_json_more json), json)))"
  by (auto simp: c_json_more_def call_def split: option.splits)

text \<open>
  C3 at two states with the cursor at \<^verbatim>\<open>]\<close>: true in the state
  \<^verbatim>\<open>','\<close>, false in the state \<^verbatim>\<open>'['\<close>.
\<close>

theorem more_characterised_witness:
  "c_json_more
     \<lparr>input = Some ''[1,]'', p = '']'', poison = None, n_states = 1, level = 1,
      states = [CHR 0x00, CHR '','']\<rparr> \<and>
   \<not> c_json_more
     \<lparr>input = Some ''[1]'', p = '']'', poison = None, n_states = 1, level = 1,
      states = [CHR 0x00, CHR ''['']\<rparr>"
  using more_characterised [of
     "\<lparr>input = Some ''[1,]'', p = '']'', poison = None, n_states = 1, level = 1,
      states = [CHR 0x00, CHR '','']\<rparr>"]
   more_characterised [of
     "\<lparr>input = Some ''[1]'', p = '']'', poison = None, n_states = 1, level = 1,
      states = [CHR 0x00, CHR ''['']\<rparr>"]
  by (auto simp: deref_def)

text \<open>
  C3, the claim as stated, fails. After \<^verbatim>\<open>c_json_open_array\<close> and
  \<^verbatim>\<open>c_json_read_u64\<close> on \<^verbatim>\<open>[1,]\<close> the level is in the state
  \<^verbatim>\<open>','\<close> (the spec's ArrayAfterValue) and the cursor is at \<^verbatim>\<open>]\<close>, yet
  \<^verbatim>\<open>c_json_more\<close> returns true.
\<close>

theorem more_true_at_bracket_after_comma:
  "trace [Begin ''[1,]'', OpenArray, ReadU64, More] (c_json_new 1) =
   Some ([Void, Ret (Inr ()), RetU64 (Inr 1), RetMore True],
         \<lparr>input = Some ''[1,]'', p = '']'', poison = None, n_states = 1, level = 1,
          states = [CHR 0x00, CHR '','']\<rparr>)"
  by (simp add: run_simps)

section \<open>Nesting depth\<close>

text \<open>
  Opening \<open>n\<close> arrays in a row, from a level that leaves room for them.
\<close>

lemma trace_append:
  "trace (xs @ ys) json =
     (case trace xs json of
        None \<Rightarrow> None
      | Some (rs, json') \<Rightarrow>
          (case trace ys json' of
             None \<Rightarrow> None
           | Some (rs', json'') \<Rightarrow> Some (rs @ rs', json'')))"
  by (induction xs arbitrary: json) (auto split: option.splits)

lemma skip_space_brackets:
  "skip_space rest = rest \<Longrightarrow>
   skip_space (replicate n (CHR ''['') @ rest) = replicate n (CHR ''['') @ rest"
  by (cases n) simp_all

lemma open_arrays_nest:
  assumes "poison json = None" and "input json \<noteq> None"
    and "states json ! level json \<noteq> CHR ''{''"
    and "level json + n \<le> n_states json" and "length (states json) = n_states json + 1"
    and "p json = replicate n (CHR ''['') @ rest" and "skip_space rest = rest"
  shows "\<exists>json'. trace (replicate n (OpenArray :: 'f op)) json = Some (replicate n (Ret (Inr ())), json') \<and>
           poison json' = None \<and> input json' \<noteq> None \<and>
           states json' ! level json' \<noteq> CHR ''{'' \<and> level json' = level json + n \<and>
           n_states json' = n_states json \<and> p json' = rest"
  using assms
proof (induction n arbitrary: json)
  case 0
  then show ?case by simp
next
  case (Suc n)
  let ?j = "json\<lparr>p := replicate n (CHR ''['') @ rest, level := level json + 1,
                  states := (states json)[level json + 1 := CHR ''['']\<rparr>"
  have o: "call (OpenArray :: 'f op) json = Some (Ret (Inr ()), ?j)"
    using Suc.prems
    by (auto simp: call_def c_json_open_array_def deref_def ptr_add_def skip_space_brackets)
  have "\<exists>json'. trace (replicate n (OpenArray :: 'f op)) ?j = Some (replicate n (Ret (Inr ())), json') \<and>
           poison json' = None \<and> input json' \<noteq> None \<and>
           states json' ! level json' \<noteq> CHR ''{'' \<and> level json' = level ?j + n \<and>
           n_states json' = n_states ?j \<and> p json' = rest"
    by (rule Suc.IH) (use Suc.prems in simp_all)
  then obtain json' where
    "trace (replicate n (OpenArray :: 'f op)) ?j = Some (replicate n (Ret (Inr ())), json')"
    "poison json' = None" "input json' \<noteq> None" "states json' ! level json' \<noteq> CHR ''{''"
    "level json' = level json + Suc n" "n_states json' = n_states json" "p json' = rest"
    by auto
  with o show ?case by simp
qed

lemma nesting_to_max_depth:
  assumes "unat sizeof_CJson + unat d + 1 < 2 ^ 64" and "n \<le> unat d"
  shows "\<exists>json'. trace (Begin (replicate n (CHR ''['')) # replicate n (OpenArray :: 'f op)) (c_json_new d) =
           Some (Void # replicate n (Ret (Inr ())), json') \<and>
           level json' = n \<and> poison json' = None"
proof -
  note new = c_json_new_unwrapped [OF assms(1)]
  let ?j = "(c_json_new d)\<lparr>input := Some (replicate n (CHR ''['')), p := replicate n (CHR ''['')\<rparr>"
  have b: "call (Begin (replicate n (CHR ''['')) :: 'f op) (c_json_new d) = Some (Void, ?j)"
    using skip_space_brackets [of "[]" n]
    by (simp add: call_def c_json_begin_read_def new)
  have "\<exists>json'. trace (replicate n (OpenArray :: 'f op)) ?j = Some (replicate n (Ret (Inr ())), json') \<and>
           poison json' = None \<and> input json' \<noteq> None \<and>
           states json' ! level json' \<noteq> CHR ''{'' \<and> level json' = level ?j + n \<and>
           n_states json' = n_states ?j \<and> p json' = []"
    by (rule open_arrays_nest) (use assms(2) in \<open>simp_all add: new\<close>)
  then obtain json' where
    "trace (replicate n (OpenArray :: 'f op)) ?j = Some (replicate n (Ret (Inr ())), json')"
    "level json' = n" "poison json' = None"
    by (auto simp: new)
  with b show ?thesis by simp
qed

lemma nesting_beyond_max_depth:
  assumes "unat sizeof_CJson + unat d + 1 < 2 ^ 64"
  shows "\<exists>json'. trace (Begin (replicate (unat d + 1) (CHR ''['')) #
                     replicate (unat d + 1) (OpenArray :: 'f op)) (c_json_new d) =
           Some (Void # replicate (unat d) (Ret (Inr ())) @ [Ret (Inl C_JSON_E_DEPTH_OVERFLOW)],
                 json')"
proof -
  note new = c_json_new_unwrapped [OF assms]
  let ?s = "replicate (unat d + 1) (CHR ''['')"
  let ?j = "(c_json_new d)\<lparr>input := Some ?s, p := ?s\<rparr>"
  have b: "call (Begin ?s :: 'f op) (c_json_new d) = Some (Void, ?j)"
    using skip_space_brackets [of "[]" "unat d + 1"]
    by (simp add: call_def c_json_begin_read_def new del: replicate.simps)
  have "\<exists>json'. trace (replicate (unat d) (OpenArray :: 'f op)) ?j =
             Some (replicate (unat d) (Ret (Inr ())), json') \<and>
           poison json' = None \<and> input json' \<noteq> None \<and>
           states json' ! level json' \<noteq> CHR ''{'' \<and> level json' = level ?j + unat d \<and>
           n_states json' = n_states ?j \<and> p json' = [CHR ''['']"
    by (rule open_arrays_nest) (simp_all add: new replicate_append_same)
  then obtain j1 where
    t: "trace (replicate (unat d) (OpenArray :: 'f op)) ?j = Some (replicate (unat d) (Ret (Inr ())), j1)"
    and j1: "poison j1 = None" "input j1 \<noteq> None" "states j1 ! level j1 \<noteq> CHR ''{''"
      "level j1 = unat d" "n_states j1 = unat d" "p j1 = [CHR ''['']"
    by (auto simp: new)
  have o: "call (OpenArray :: 'f op) j1 =
      Some (Ret (Inl C_JSON_E_DEPTH_OVERFLOW), j1\<lparr>poison := Some C_JSON_E_DEPTH_OVERFLOW\<rparr>)"
    using j1 by (auto simp: call_def c_json_open_array_def deref_def latch_def)
  have "replicate (unat d + 1) (OpenArray :: 'f op) =
      replicate (unat d) (OpenArray :: 'f op) @ [OpenArray :: 'f op]"
    by (simp add: replicate_append_same)
  then have "trace (replicate (unat d + 1) (OpenArray :: 'f op)) ?j =
      Some (replicate (unat d) (Ret (Inr ())) @ [Ret (Inl C_JSON_E_DEPTH_OVERFLOW)],
            j1\<lparr>poison := Some C_JSON_E_DEPTH_OVERFLOW\<rparr>)"
    using t o by (simp add: trace_append del: replicate.simps)
  with b show ?thesis by (simp del: replicate.simps)
qed

text \<open>
  C5. The decoder has its \<^verbatim>\<open>n_states + 1\<close> state bytes, no latched error, and its level
  is not at an object key and is at most \<^verbatim>\<open>n_states\<close>, the maximum depth. With the
  cursor at \<^verbatim>\<open>[\<close>, \<^verbatim>\<open>c_json_open_array\<close> fails with
  \<^verbatim>\<open>C_JSON_E_DEPTH_OVERFLOW\<close> exactly when the level equals the maximum depth, and
  below it succeeds and enters level + 1; with the cursor at \<^verbatim>\<open>{\<close>,
  \<^verbatim>\<open>c_json_open_object\<close> fails with \<^verbatim>\<open>C_JSON_E_DEPTH_OVERFLOW\<close> exactly when
  the level equals the maximum depth, and below it succeeds and enters level + 1 when a key
  or \<^verbatim>\<open>}\<close> follows.
  On the decoder that \<^verbatim>\<open>c_json_new\<close> makes for a maximum depth \<open>d\<close> whose allocation
  size \<^verbatim>\<open>sizeof(*json) + d + 1\<close> does not wrap around, \<open>n \<le> d\<close> arrays nested in
  each other are all opened, which reaches level \<open>n\<close> with no error; of \<open>d + 1\<close> nested
  arrays the first \<open>d\<close> are opened and the last one fails with
  \<^verbatim>\<open>C_JSON_E_DEPTH_OVERFLOW\<close>.
\<close>

theorem open_depth_overflow:
  fixes json :: CJson and n :: nat and d :: "64 word"
  shows
   "(length (states json) = n_states json + 1 \<and> poison json = None \<and>
     states json ! level json \<noteq> CHR ''{'' \<and> level json \<le> n_states json \<longrightarrow>
      (deref (p json) = CHR ''['' \<longrightarrow>
         (fst (c_json_open_array json) = Inl C_JSON_E_DEPTH_OVERFLOW \<longleftrightarrow>
            level json = n_states json) \<and>
         (level json < n_states json \<longrightarrow>
            c_json_open_array json =
              (Inr (), json\<lparr>p := skip_space (ptr_add 1 (p json)), level := level json + 1,
                             states := (states json)[level json + 1 := CHR ''['']\<rparr>))) \<and>
      (deref (p json) = CHR ''{'' \<longrightarrow>
         (fst (c_json_open_object json) = Inl C_JSON_E_DEPTH_OVERFLOW \<longleftrightarrow>
            level json = n_states json) \<and>
         (level json < n_states json \<and>
          (deref (skip_space (ptr_add 1 (p json))) = CHR 0x22 \<or>
           deref (skip_space (ptr_add 1 (p json))) = CHR ''}'') \<longrightarrow>
            c_json_open_object json =
              (Inr (), json\<lparr>p := skip_space (ptr_add 1 (p json)), level := level json + 1,
                             states := (states json)[level json + 1 := CHR ''{'']\<rparr>)))) \<and>
    (unat sizeof_CJson + unat d + 1 < 2 ^ 64 \<and> n \<le> unat d \<longrightarrow>
      (\<exists>json'. trace (Begin (replicate n (CHR ''['')) # replicate n (OpenArray :: 'f op))
                  (c_json_new d) =
                Some (Void # replicate n (Ret (Inr ())), json') \<and>
                level json' = n \<and> poison json' = None)) \<and>
    (unat sizeof_CJson + unat d + 1 < 2 ^ 64 \<longrightarrow>
      (\<exists>json'. trace (Begin (replicate (unat d + 1) (CHR ''['')) #
                        replicate (unat d + 1) (OpenArray :: 'f op)) (c_json_new d) =
                Some (Void # replicate (unat d) (Ret (Inr ())) @
                        [Ret (Inl C_JSON_E_DEPTH_OVERFLOW)], json')))"
proof (intro conjI impI)
  assume "unat sizeof_CJson + unat d + 1 < 2 ^ 64 \<and> n \<le> unat d"
  then show "\<exists>json'. trace (Begin (replicate n (CHR ''['')) # replicate n (OpenArray :: 'f op))
                  (c_json_new d) =
                Some (Void # replicate n (Ret (Inr ())), json') \<and>
                level json' = n \<and> poison json' = None"
    by (intro nesting_to_max_depth) simp_all
next
  assume "unat sizeof_CJson + unat d + 1 < 2 ^ 64"
  then show "\<exists>json'. trace (Begin (replicate (unat d + 1) (CHR ''['')) #
                        replicate (unat d + 1) (OpenArray :: 'f op)) (c_json_new d) =
                Some (Void # replicate (unat d) (Ret (Inr ())) @
                        [Ret (Inl C_JSON_E_DEPTH_OVERFLOW)], json')"
    by (rule nesting_beyond_max_depth)
qed (auto simp: c_json_open_array_def c_json_open_object_def latch_def Let_def)

text \<open>
  C5 for the maximum depth 1 on \<^verbatim>\<open>[[1]]\<close>: the first
  \<^verbatim>\<open>c_json_open_array\<close>, at level 0, succeeds and reaches depth 1; the second, at
  level 1, fails with \<^verbatim>\<open>C_JSON_E_DEPTH_OVERFLOW\<close>. On the decoder of
  \<^verbatim>\<open>c_json_new\<close> for the maximum depth 1, one array is opened, and of two nested
  arrays the second open fails.
\<close>

theorem open_depth_overflow_witness:
  "c_json_open_array
     \<lparr>input = Some ''[[1]]'', p = ''[[1]]'', poison = None, n_states = 1, level = 0,
      states = [CHR 0x00, CHR 0x00]\<rparr> =
   (Inr (),
     \<lparr>input = Some ''[[1]]'', p = ''[1]]'', poison = None, n_states = 1, level = 1,
      states = [CHR 0x00, CHR ''['']\<rparr>) \<and>
   fst (c_json_open_array
     \<lparr>input = Some ''[[1]]'', p = ''[1]]'', poison = None, n_states = 1, level = 1,
      states = [CHR 0x00, CHR ''['']\<rparr>) = Inl C_JSON_E_DEPTH_OVERFLOW \<and>
   (\<exists>json'. trace [Begin ''['', OpenArray :: unit op] (c_json_new 1) =
              Some ([Void, Ret (Inr ())], json') \<and> level json' = 1 \<and> poison json' = None) \<and>
   (\<exists>json'. trace [Begin ''[['', OpenArray :: unit op, OpenArray] (c_json_new 1) =
              Some ([Void, Ret (Inr ()), Ret (Inl C_JSON_E_DEPTH_OVERFLOW)], json'))"
proof -
  let ?a = "\<lparr>input = Some ''[[1]]'', p = ''[[1]]'', poison = None, n_states = 1, level = 0,
        states = [CHR 0x00, CHR 0x00]\<rparr>"
  let ?b = "\<lparr>input = Some ''[[1]]'', p = ''[1]]'', poison = None, n_states = 1, level = 1,
        states = [CHR 0x00, CHR ''['']\<rparr>"
  have fits: "unat sizeof_CJson + unat (1 :: 64 word) + 1 < 2 ^ 64"
    by (simp add: sizeof_CJson_def)
  have "c_json_open_array ?a = (Inr (), ?b)"
    using open_depth_overflow [where json = ?a, THEN conjunct1]
    by (simp add: deref_def ptr_add_def)
  moreover have "fst (c_json_open_array ?b) = Inl C_JSON_E_DEPTH_OVERFLOW"
    using open_depth_overflow [where json = ?b, THEN conjunct1]
    by (simp add: deref_def ptr_add_def)
  moreover have "\<exists>json'. trace [Begin ''['', OpenArray :: unit op] (c_json_new 1) =
              Some ([Void, Ret (Inr ())], json') \<and> level json' = 1 \<and> poison json' = None"
    using open_depth_overflow [where n = 1 and d = 1, THEN conjunct2, THEN conjunct1] fits
    by simp
  moreover have "\<exists>json'. trace [Begin ''[['', OpenArray :: unit op, OpenArray] (c_json_new 1) =
              Some ([Void, Ret (Inr ()), Ret (Inl C_JSON_E_DEPTH_OVERFLOW)], json')"
    using open_depth_overflow [where d = 1, THEN conjunct2, THEN conjunct2, rule_format, OF fits]
    by simp
  ultimately show ?thesis by simp
qed

section \<open>The invariant of the nesting stack\<close>


lemma stack_ok_update [simp]:
  "stack_ok d (json\<lparr>p := s\<rparr>) = stack_ok d json"
  "stack_ok d (json\<lparr>poison := e\<rparr>) = stack_ok d json"
  "stack_ok d (json\<lparr>input := i\<rparr>) = stack_ok d json"
  by (simp_all add: stack_ok_def)

lemma stack_ok_latch [simp]: "stack_ok d (snd (latch e json)) = stack_ok d json"
  by (simp add: latch_def)

lemma stack_ok_advance:
  assumes "stack_ok d json"
  shows "stack_ok d (snd (c_json_advance json))"
  using assms
  by (auto simp: c_json_advance_def Let_def latch_def stack_ok_def nth_list_update
      split: option.splits)

lemma stack_ok_advance_at [simp]:
  "stack_ok d json \<Longrightarrow> stack_ok d (snd (c_json_advance (json\<lparr>p := s\<rparr>)))"
  "stack_ok d json \<Longrightarrow> c_json_advance (json\<lparr>p := s\<rparr>) = (r, json') \<Longrightarrow> stack_ok d json'"
  using stack_ok_advance [of d "json\<lparr>p := s\<rparr>"] by simp_all

















section \<open>UTF-8 and UTF-16\<close>

lemma or_add_nat:
  fixes y m :: nat
  assumes "y < 2 ^ k"
  shows "push_bit k m OR y = push_bit k m + y"
proof -
  have "take_bit k y = y" using assms by (simp add: take_bit_nat_eq_self)
  then have "push_bit k m AND y = 0"
    by (metis add.right_neutral and.assoc and.commute push_bit_of_0
        push_bit_take_bit take_bit_0 take_bit_eq_mask)
  then show ?thesis by (simp add: disjunctive_add_eq_or)
qed

lemma and_63_nat: "(x::nat) AND 63 = x mod 64"
proof -
  have "x AND 63 = x AND mask 6" by (simp add: mask_eq_exp_minus_1)
  also have "\<dots> = take_bit 6 x" by (simp add: take_bit_eq_mask)
  also have "\<dots> = x mod 64" by (simp add: take_bit_eq_mod)
  finally show ?thesis .
qed

lemma unat_continuation_byte:
  "unat (0x80 OR (w AND 0x3f) :: 32 word) = 0x80 + unat w mod 0x40"
proof -
  have "unat (0x80 OR (w AND 0x3f)) = 0x80 OR (unat w AND 63)"
    by (simp add: unsigned_or_eq unsigned_and_eq)
  also have "\<dots> = push_bit 6 2 OR (unat w mod 64)"
    by (simp add: and_63_nat)
  also have "\<dots> = push_bit 6 2 + unat w mod 64"
    by (rule or_add_nat) simp
  finally show ?thesis by simp
qed

lemma unat_lead_byte:
  fixes w :: "32 word"
  shows "unat w < 32 \<Longrightarrow> unat (0xc0 OR w) = 0xc0 + unat w"
    and "unat w < 16 \<Longrightarrow> unat (0xe0 OR w) = 0xe0 + unat w"
    and "unat w < 8 \<Longrightarrow> unat (0xf0 OR w) = 0xf0 + unat w"
  using or_add_nat [of "unat w" 5 6] or_add_nat [of "unat w" 4 14] or_add_nat [of "unat w" 3 30]
  by (simp_all add: unsigned_or_eq)

lemma fputcs_never_fails: "fputcs NeverFails bs stream = Inr (stream @ bs)"
  by (induction bs arbitrary: stream) (simp_all add: fputc_def)

text \<open>
  On a stream that does not fail, \<^verbatim>\<open>c_json_write_utf8\<close> appends the standard
  encoding of every code point up to \<open>0x10FFFF\<close>.
\<close>

lemma write_utf8_refines:
  assumes "unat cp \<le> 0x10FFFF"
  shows "c_json_write_utf8 NeverFails cp stream = Some (Inr (stream @ utf8_encode (unat cp)))"
proof -
  let ?n = "unat cp"
  have d: "unat (drop_bit k cp) = ?n div 2 ^ k" for k
    unfolding unat_drop_bit_eq by (simp add: drop_bit_eq_div)
  have c: "unat (0x80 OR (cp AND 0x3f)) = 0x80 + ?n mod 0x40"
      "unat (0x80 OR (drop_bit k cp AND 0x3f)) = 0x80 + ?n div 2 ^ k mod 0x40" for k
    by (simp_all only: unat_continuation_byte d)
  consider "?n \<le> 0x7F" | "0x7F < ?n" "?n \<le> 0x7FF" | "0x7FF < ?n" "?n \<le> 0xFFFF"
    | "0xFFFF < ?n" "?n \<le> 0x10FFFF"
    using assms by linarith
  then show ?thesis
  proof cases
    case 1
    then show ?thesis
      by (simp add: c_json_write_utf8_def utf8_encode_def word_le_nat_alt fputc_def
          to_char_def)
  next
    case 2
    then have "unat (drop_bit 6 cp) < 32" by (simp add: d)
    then have "unat (0xc0 OR drop_bit 6 cp) = 0xc0 + ?n div 0x40"
      by (simp add: unat_lead_byte d)
    with 2 c(1) show ?thesis
      by (simp add: c_json_write_utf8_def utf8_encode_def word_le_nat_alt fputc_def
          to_char_def)
  next
    case 3
    then have "unat (drop_bit 12 cp) < 16" by (simp add: d)
    then have "unat (0xe0 OR drop_bit 12 cp) = 0xe0 + ?n div 0x1000"
      by (simp add: unat_lead_byte d)
    with 3 c(1) c(2) [of 6] show ?thesis
      by (simp add: c_json_write_utf8_def utf8_encode_def word_le_nat_alt fputc_def
          to_char_def)
  next
    case 4
    then have "unat (drop_bit 18 cp) < 8" by (simp add: d)
    then have "unat (0xf0 OR drop_bit 18 cp) = 0xf0 + ?n div 0x40000"
      by (simp add: unat_lead_byte d)
    with 4 c(1) c(2) [of 6] c(2) [of 12] show ?thesis
      by (simp add: c_json_write_utf8_def utf8_encode_def word_le_nat_alt fputc_def
          to_char_def)
  qed
qed

lemma unat_ucast_16_32: "unat (ucast (w :: 16 word) :: 32 word) = unat w"
proof -
  have "unat w < 2 ^ 16" using unsigned_less [of w] by simp
  then have "unat w < 2 ^ 32" by simp
  then show ?thesis by (simp add: unsigned_ucast_eq take_bit_nat_eq_self)
qed

text \<open>The code point that the code computes from a surrogate pair, without overflow.\<close>

lemma surrogate_cp:
  fixes hi lo :: "16 word"
  assumes "0xD800 \<le> hi" and "hi \<le> 0xDBFF" and "0xDC00 \<le> lo" and "lo \<le> 0xDFFF"
  shows "unat (0x10000 + push_bit 10 (ucast hi - 0xD800) + (ucast lo - 0xDC00) :: 32 word) =
         0x10000 + (unat hi - 0xD800) * 0x400 + (unat lo - 0xDC00)"
proof -
  let ?h = "ucast hi :: 32 word" and ?l = "ucast lo :: 32 word"
  have h: "unat ?h = unat hi" and l: "unat ?l = unat lo"
    by (simp_all add: unat_ucast_16_32)
  have hr: "0xD800 \<le> unat hi" "unat hi \<le> 0xDBFF" and lr: "0xDC00 \<le> unat lo" "unat lo \<le> 0xDFFF"
    using assms by (simp_all add: word_le_nat_alt)
  have a: "unat (?h - 0xD800) = unat hi - 0xD800"
    using hr h by (simp add: unat_sub word_le_nat_alt)
  have b: "unat (?l - 0xDC00) = unat lo - 0xDC00"
    using lr l by (simp add: unat_sub word_le_nat_alt)
  have "push_bit 10 (unat hi - 0xD800) < (2::nat) ^ 32"
    using hr by (simp add: push_bit_eq_mult)
  then have c: "unat (push_bit 10 (?h - 0xD800)) = (unat hi - 0xD800) * 0x400"
    by (simp add: unsigned_push_bit_eq a take_bit_nat_eq_self) (simp add: push_bit_eq_mult)
  define x :: "32 word" where "x = push_bit 10 (?h - 0xD800)"
  define y :: "32 word" where "y = ?l - 0xDC00"
  have cx: "unat x = (unat hi - 0xD800) * 0x400" and cy: "unat y = unat lo - 0xDC00"
    using c b by (simp_all add: x_def y_def)
  have "unat (0x10000 :: 32 word) + unat x < 2 ^ LENGTH(32)"
    using hr by (simp add: cx)
  then have d: "unat (0x10000 + x) = unat (0x10000 :: 32 word) + unat x"
    by (rule unat_add_lem [THEN iffD1])
  have "unat (0x10000 + x) + unat y < 2 ^ LENGTH(32)"
    using hr lr by (simp add: d cx cy)
  then have "unat (0x10000 + x + y) = unat (0x10000 + x) + unat y"
    by (rule unat_add_lem [THEN iffD1])
  then have "unat (0x10000 + x + y) = 0x10000 + (unat hi - 0xD800) * 0x400 + (unat lo - 0xDC00)"
    by (simp add: d cx cy)
  then show ?thesis by (simp only: x_def y_def)
qed

lemma char_in_range:
  assumes "lo \<le> (of_char c :: nat)" and "(of_char c :: nat) < hi"
  shows "c \<in> set (map char_of [lo ..< hi])"
proof -
  from assms have "(of_char c :: nat) \<in> set [lo ..< hi]"
    by (simp only: set_upt atLeastLessThan_iff)
  then have "char_of (of_char c :: nat) \<in> char_of ` set [lo ..< hi]"
    by (rule imageI)
  then show ?thesis by simp
qed

lemma decimal_chars:
  "c \<in> set ''0123456789'' \<longleftrightarrow> 48 \<le> (of_char c :: nat) \<and> (of_char c :: nat) \<le> 57"
proof
  assume "c \<in> set ''0123456789''"
  then show "48 \<le> (of_char c :: nat) \<and> (of_char c :: nat) \<le> 57" by auto
next
  assume "48 \<le> (of_char c :: nat) \<and> (of_char c :: nat) \<le> 57"
  then have "c \<in> set (map char_of [48 ..< 58 :: nat])" by (intro char_in_range) simp_all
  also have "map char_of [48 ..< 58 :: nat] = ''0123456789''" by code_simp
  finally show "c \<in> set ''0123456789''" .
qed

lemma lower_hex_chars:
  "c \<in> set ''abcdef'' \<longleftrightarrow> 97 \<le> (of_char c :: nat) \<and> (of_char c :: nat) \<le> 102"
proof
  assume "c \<in> set ''abcdef''"
  then show "97 \<le> (of_char c :: nat) \<and> (of_char c :: nat) \<le> 102" by auto
next
  assume "97 \<le> (of_char c :: nat) \<and> (of_char c :: nat) \<le> 102"
  then have "c \<in> set (map char_of [97 ..< 103 :: nat])" by (intro char_in_range) simp_all
  also have "map char_of [97 ..< 103 :: nat] = ''abcdef''" by code_simp
  finally show "c \<in> set ''abcdef''" .
qed

lemma upper_hex_chars:
  "c \<in> set ''ABCDEF'' \<longleftrightarrow> 65 \<le> (of_char c :: nat) \<and> (of_char c :: nat) \<le> 70"
proof
  assume "c \<in> set ''ABCDEF''"
  then show "65 \<le> (of_char c :: nat) \<and> (of_char c :: nat) \<le> 70" by auto
next
  assume "65 \<le> (of_char c :: nat) \<and> (of_char c :: nat) \<le> 70"
  then have "c \<in> set (map char_of [65 ..< 71 :: nat])" by (intro char_in_range) simp_all
  also have "map char_of [65 ..< 71 :: nat] = ''ABCDEF''" by code_simp
  finally show "c \<in> set ''ABCDEF''" .
qed

lemma hex_digit_value_less: "hex_digit_value c = Some d \<Longrightarrow> d < 16"
  unfolding hex_digit_value_def decimal_chars lower_hex_chars upper_hex_chars
  by (auto split: if_splits)

lemma of_char_word_diff:
  assumes "k \<le> (of_char c :: nat)"
  shows "(of_char c :: 8 word) - of_nat k = of_nat (of_char c - k)"
proof -
  have "(of_char c :: 8 word) = of_nat (of_char c)" by (simp add: of_nat_of_char)
  then show ?thesis using assms by (simp only: of_nat_diff)
qed

lemma hex_digit_refines: "hex_digit c = map_option of_nat (hex_digit_value c)"
  unfolding hex_digit_def hex_digit_value_def decimal_chars lower_hex_chars upper_hex_chars Let_def
  using of_char_word_diff [of 48 c] of_char_word_diff [of 97 c] of_char_word_diff [of 65 c]
  by auto

lemma nibbles_nat:
  fixes d1 d2 d3 d4 :: nat
  assumes "d1 < 16" and "d2 < 16" and "d3 < 16" and "d4 < 16"
  shows "push_bit 12 d1 OR push_bit 8 d2 OR push_bit 4 d3 OR d4 =
         16 * (16 * (16 * d1 + d2) + d3) + d4"
proof -
  have a: "push_bit 4 d3 OR d4 = push_bit 4 d3 + d4"
    using assms by (intro or_add_nat) simp
  have "push_bit 4 d3 + d4 < 2 ^ 8" using assms by (simp add: push_bit_eq_mult)
  then have b: "push_bit 8 d2 OR (push_bit 4 d3 + d4) = push_bit 8 d2 + (push_bit 4 d3 + d4)"
    by (rule or_add_nat)
  have "push_bit 8 d2 + (push_bit 4 d3 + d4) < 2 ^ 12" using assms by (simp add: push_bit_eq_mult)
  then have c: "push_bit 12 d1 OR (push_bit 8 d2 + (push_bit 4 d3 + d4)) =
      push_bit 12 d1 + (push_bit 8 d2 + (push_bit 4 d3 + d4))"
    by (rule or_add_nat)
  have "push_bit 12 d1 OR push_bit 8 d2 OR push_bit 4 d3 OR d4 =
      push_bit 12 d1 + (push_bit 8 d2 + (push_bit 4 d3 + d4))"
    by (simp only: a b c)
  then show ?thesis by (simp add: push_bit_eq_mult)
qed

lemma unat_ucast_nibble:
  assumes "d < 16"
  shows "unat (ucast (of_nat d :: 8 word) :: 32 word) = d"
proof -
  have "unat (of_nat d :: 8 word) = d" using assms by (simp add: unat_of_nat)
  moreover have "unat (of_nat d :: 8 word) < 2 ^ 32"
    using assms calculation by simp
  ultimately show ?thesis by (simp add: unsigned_ucast_eq take_bit_nat_eq_self)
qed

lemma nibbles_word:
  fixes d1 d2 d3 d4 :: nat
  assumes "d1 < 16" and "d2 < 16" and "d3 < 16" and "d4 < 16"
  shows "(ucast (push_bit 12 (ucast (of_nat d1 :: 8 word) :: 32 word)
                 OR push_bit 8 (ucast (of_nat d2 :: 8 word))
                 OR push_bit 4 (ucast (of_nat d3 :: 8 word))
                 OR ucast (of_nat d4 :: 8 word)) :: 16 word) =
         of_nat (16 * (16 * (16 * d1 + d2) + d3) + d4)"
proof -
  define w :: "32 word" where "w = push_bit 12 (ucast (of_nat d1 :: 8 word) :: 32 word)
                 OR push_bit 8 (ucast (of_nat d2 :: 8 word))
                 OR push_bit 4 (ucast (of_nat d3 :: 8 word))
                 OR ucast (of_nat d4 :: 8 word)"
  have pb: "unat (push_bit 12 (ucast (of_nat d :: 8 word) :: 32 word)) = push_bit 12 d"
      "unat (push_bit 8 (ucast (of_nat d :: 8 word) :: 32 word)) = push_bit 8 d"
      "unat (push_bit 4 (ucast (of_nat d :: 8 word) :: 32 word)) = push_bit 4 d"
    if "d < 16" for d
  proof -
    have "push_bit 12 d < 2 ^ 32" "push_bit 8 d < 2 ^ 32" "push_bit 4 d < 2 ^ 32"
      using that by (simp_all add: push_bit_eq_mult)
    then show "unat (push_bit 12 (ucast (of_nat d :: 8 word) :: 32 word)) = push_bit 12 d"
      "unat (push_bit 8 (ucast (of_nat d :: 8 word) :: 32 word)) = push_bit 8 d"
      "unat (push_bit 4 (ucast (of_nat d :: 8 word) :: 32 word)) = push_bit 4 d"
      using that by (simp_all add: unsigned_push_bit_eq unat_ucast_nibble take_bit_nat_eq_self)
  qed
  have "unat w = push_bit 12 d1 OR push_bit 8 d2 OR push_bit 4 d3 OR d4"
    using assms by (simp add: w_def unsigned_or_eq pb unat_ucast_nibble)
  then have "unat w = 16 * (16 * (16 * d1 + d2) + d3) + d4"
    using assms by (simp only: nibbles_nat)
  then have "(ucast w :: 16 word) = of_nat (16 * (16 * (16 * d1 + d2) + d3) + d4)"
    by (metis of_nat_unat)
  then show ?thesis by (simp only: w_def)
qed

lemma hex_value_4:
  "hex_value 0 [h1, h2, h3, h4] = Some n \<longleftrightarrow>
     (\<exists>d1 d2 d3 d4. hex_digit_value h1 = Some d1 \<and> hex_digit_value h2 = Some d2 \<and>
        hex_digit_value h3 = Some d3 \<and> hex_digit_value h4 = Some d4 \<and>
        n = 16 * (16 * (16 * d1 + d2) + d3) + d4)"
  by (auto split: option.splits)

lemma hex_value_4_less:
  assumes "hex_value 0 [h1, h2, h3, h4] = Some n"
  shows "n < 65536"
proof -
  from assms obtain d1 d2 d3 d4 where
    "hex_digit_value h1 = Some d1" "hex_digit_value h2 = Some d2"
    "hex_digit_value h3 = Some d3" "hex_digit_value h4 = Some d4"
    and n: "n = 16 * (16 * (16 * d1 + d2) + d3) + d4"
    unfolding hex_value_4 by blast
  then have "d1 < 16" "d2 < 16" "d3 < 16" "d4 < 16"
    by (auto dest: hex_digit_value_less)
  with n show ?thesis by simp
qed

text \<open>
  \<^verbatim>\<open>c_json_read_utf16_unit\<close> reads the value of the four hexadecimal digits at
  the pointer, and fails when one of the four bytes is no digit.
\<close>

lemma utf16_unit_refines:
  "c_json_read_utf16_unit (h1 # h2 # h3 # h4 # rest) =
     (case hex_value 0 [h1, h2, h3, h4] of
        None \<Rightarrow> Inl C_JSON_E_INVALID_JSON
      | Some n \<Rightarrow> Inr (of_nat n))"
proof (cases "hex_value 0 [h1, h2, h3, h4]")
  case None
  then show ?thesis
    by (auto simp: c_json_read_utf16_unit_def hex_digit_refines deref_def ptr_add_def
        split: option.splits)
next
  case (Some n)
  then obtain d1 d2 d3 d4 where
    d: "hex_digit_value h1 = Some d1" "hex_digit_value h2 = Some d2"
    "hex_digit_value h3 = Some d3" "hex_digit_value h4 = Some d4"
    and n: "n = 16 * (16 * (16 * d1 + d2) + d3) + d4"
    unfolding hex_value_4 by blast
  then have "d1 < 16" "d2 < 16" "d3 < 16" "d4 < 16"
    by (auto dest: hex_digit_value_less)
  from nibbles_word [OF this] d n Some show ?thesis
    by (simp add: c_json_read_utf16_unit_def hex_digit_refines deref_def ptr_add_def)
qed

lemma hex_digit_nul: "hex_digit (CHR 0x00) = None"
  by (simp add: hex_digit_def)

lemma utf16_unit_short:
  assumes "length s < 4"
  shows "c_json_read_utf16_unit s = Inl C_JSON_E_INVALID_JSON"
  using assms
  by (cases s; cases "tl s"; cases "tl (tl s)"; cases "tl (tl (tl s))")
    (auto simp: c_json_read_utf16_unit_def deref_def ptr_add_def hex_digit_nul
      split: option.splits)

lemma utf16_unit_cases:
  "c_json_read_utf16_unit s = Inl C_JSON_E_INVALID_JSON \<or>
   (\<exists>l1 l2 l3 l4 r n. s = l1 # l2 # l3 # l4 # r \<and> hex_value 0 [l1, l2, l3, l4] = Some n \<and>
      c_json_read_utf16_unit s = Inr (of_nat n))"
proof (cases "length s < 4")
  case True
  then show ?thesis by (simp add: utf16_unit_short)
next
  case False
  then obtain l1 l2 l3 l4 r where s: "s = l1 # l2 # l3 # l4 # r"
    by (cases s; cases "tl s"; cases "tl (tl s)"; cases "tl (tl (tl s))") auto
  show ?thesis
    unfolding s utf16_unit_refines
    by (cases "hex_value 0 [l1, l2, l3, l4]") auto
qed

lemma unat_of_nat_16: "n < 65536 \<Longrightarrow> unat (of_nat n :: 16 word) = n"
  by (simp add: unat_of_nat)

section \<open>c\_json\_read\_string\<close>

lemma loop_plain:
  assumes "\<forall>c\<in>set pre. plain c"
  shows "read_string_loop NeverFails (pre @ s) stream = read_string_loop NeverFails s (stream @ pre)"
  using assms
proof (induction pre arbitrary: stream)
  case Nil
  then show ?case by simp
next
  case (Cons c pre)
  then have "plain c" by simp
  then have "read_string_loop NeverFails ((c # pre) @ s) stream =
      read_string_loop NeverFails (pre @ s) (stream @ [c])"
    by (subst read_string_loop.simps) (simp add: plain_def deref_def ptr_add_def fputc_def)
  with Cons show ?case by simp
qed

lemma loop_quote:
  "read_string_loop env (CHR 0x22 # rest) stream = Some (Inr (CHR 0x22 # rest, stream))"
  by (subst read_string_loop.simps) (simp add: deref_def)

lemma loop_escape_u:
  "read_string_loop env (CHR 0x5C # CHR ''u'' # s) stream =
     (case read_string_escape_u s of
        Inl (r, s') \<Rightarrow> Some (Inl (r, s'))
      | Inr (cp, s') \<Rightarrow>
          (case c_json_write_utf8 env cp stream of
             None \<Rightarrow> None
           | Some (Inl r) \<Rightarrow> Some (Inl (r, s'))
           | Some (Inr stream') \<Rightarrow> read_string_loop env s' stream'))"
  by (subst read_string_loop.simps) (simp add: deref_def ptr_add_def simple_escape_def)

lemma escape_u_pair:
  assumes "hex_value 0 [h1, h2, h3, h4] = Some hi" and "0xD800 \<le> hi" and "hi \<le> 0xDBFF"
    and "hex_value 0 [l1, l2, l3, l4] = Some lo" and "0xDC00 \<le> lo" and "lo \<le> 0xDFFF"
  shows "\<exists>cp. read_string_escape_u
            (h1 # h2 # h3 # h4 # CHR 0x5C # CHR ''u'' # l1 # l2 # l3 # l4 # rest) = Inr (cp, rest) \<and>
          unat cp = 0x10000 + (hi - 0xD800) * 0x400 + (lo - 0xDC00)"
proof -
  define whi :: "16 word" where "whi = of_nat hi"
  define wlo :: "16 word" where "wlo = of_nat lo"
  have u: "unat whi = hi" "unat wlo = lo"
    using assms by (simp_all add: whi_def wlo_def unat_of_nat_16)
  then have r: "0xD800 \<le> whi" "whi \<le> 0xDBFF" "0xDC00 \<le> wlo" "wlo \<le> 0xDFFF"
    using assms by (simp_all add: word_le_nat_alt)
  then have nr: "\<not> wlo < 0xDC00" "\<not> 0xDFFF < wlo" by auto
  have "read_string_escape_u
      (h1 # h2 # h3 # h4 # CHR 0x5C # CHR ''u'' # l1 # l2 # l3 # l4 # rest) =
      Inr (0x10000 + push_bit 10 (ucast whi - 0xD800) + (ucast wlo - 0xDC00), rest)"
    using assms(1,4) r nr
    by (simp add: read_string_escape_u_def utf16_unit_refines ptr_add_def deref_def Let_def
        whi_def [symmetric] wlo_def [symmetric])
  with surrogate_cp [OF r] u show ?thesis by simp
qed

lemma escape_u_unpaired:
  assumes "hex_value 0 [h1, h2, h3, h4] = Some cu"
    and "(0xD800 \<le> cu \<and> cu \<le> 0xDBFF \<and> \<not> low_surrogate_escape rest) \<or>
         (0xDC00 \<le> cu \<and> cu \<le> 0xDFFF)"
  shows "\<exists>s. read_string_escape_u (h1 # h2 # h3 # h4 # rest) = Inl (C_JSON_E_INVALID_JSON, s)"
proof -
  define w :: "16 word" where "w = of_nat cu"
  have cu: "cu < 65536" using assms(1) by (rule hex_value_4_less)
  then have u: "unat w = cu" by (simp add: w_def unat_of_nat_16)
  have first: "c_json_read_utf16_unit (h1 # h2 # h3 # h4 # r) = Inr w" for r
    using assms(1) by (simp add: utf16_unit_refines w_def)
  from assms(2) show ?thesis
  proof
    assume "0xDC00 \<le> cu \<and> cu \<le> 0xDFFF"
    then have "0xDC00 \<le> w" "w \<le> 0xDFFF" "\<not> w \<le> 0xDBFF"
      using u by (simp_all add: word_le_nat_alt)
    then show ?thesis
      by (simp add: read_string_escape_u_def first Let_def)
  next
    assume a: "0xD800 \<le> cu \<and> cu \<le> 0xDBFF \<and> \<not> low_surrogate_escape rest"
    then have hi: "0xD800 \<le> w" "w \<le> 0xDBFF"
      using u by (simp_all add: word_le_nat_alt)
    show ?thesis
    proof (cases "deref rest = CHR 0x5C \<and> deref (ptr_add 1 rest) = CHR ''u''")
      case False
      with hi show ?thesis
        by (auto simp: read_string_escape_u_def first Let_def ptr_add_def)
    next
      case True
      then obtain s where rest: "rest = CHR 0x5C # CHR ''u'' # s"
        by (cases rest; cases "tl rest") (auto simp: deref_def ptr_add_def)
      from utf16_unit_cases [of s] show ?thesis
      proof
        assume "c_json_read_utf16_unit s = Inl C_JSON_E_INVALID_JSON"
        with hi rest show ?thesis
          by (simp add: read_string_escape_u_def first Let_def ptr_add_def deref_def)
      next
        assume "\<exists>l1 l2 l3 l4 r n. s = l1 # l2 # l3 # l4 # r \<and>
          hex_value 0 [l1, l2, l3, l4] = Some n \<and> c_json_read_utf16_unit s = Inr (of_nat n)"
        then obtain l1 l2 l3 l4 r n where s: "s = l1 # l2 # l3 # l4 # r"
          and n: "hex_value 0 [l1, l2, l3, l4] = Some n"
          and second: "c_json_read_utf16_unit s = Inr (of_nat n)"
          by blast
        have "n < 65536" using n by (rule hex_value_4_less)
        then have un: "unat (of_nat n :: 16 word) = n" by (rule unat_of_nat_16)
        have "\<not> (0xDC00 \<le> n \<and> n \<le> 0xDFFF)"
          using a rest s n by (simp add: low_surrogate_escape_def)
        then have "(of_nat n :: 16 word) < 0xDC00 \<or> 0xDFFF < (of_nat n :: 16 word)"
          using un by (auto simp: word_less_nat_alt)
        with hi rest second show ?thesis
          by (simp add: read_string_escape_u_def first Let_def ptr_add_def deref_def)
      qed
    qed
  qed
qed

lemma c_string_no_nul: "\<forall>c\<in>set bytes. c \<noteq> CHR 0x00 \<Longrightarrow> c_string bytes = bytes"
  by (simp add: c_string_def)

lemma plain_not_nul: "plain c \<Longrightarrow> c \<noteq> CHR 0x00"
  by (auto simp: plain_def)

lemma char_of_not_nul:
  fixes k :: nat
  assumes "0 < k" and "k < 256"
  shows "char_of k \<noteq> CHR 0x00"
proof
  assume "char_of k = CHR 0x00"
  then have "(of_char (char_of k) :: nat) = of_char (CHR 0x00)" by simp
  with assms show False by simp
qed

lemma utf8_encode_4_no_nul:
  assumes "0x10000 \<le> n" and "n \<le> 0x10FFFF"
  shows "\<forall>c\<in>set (utf8_encode n). c \<noteq> CHR 0x00"
proof -
  have "n div 0x40000 < 5" using assms(2) by simp
  then have "char_of (0xF0 + n div 0x40000) \<noteq> CHR 0x00"
    by (intro char_of_not_nul) simp_all
  moreover have "char_of (0x80 + k mod 0x40) \<noteq> CHR 0x00" for k :: nat
  proof (rule char_of_not_nul)
    have "k mod 0x40 < 0x40" by simp
    then show "0x80 + k mod 0x40 < 256" by linarith
  qed simp
  ultimately show ?thesis using assms(1) by (simp add: utf8_encode_def)
qed

lemma read_string_at_quote:
  assumes "poison json = None" and "p json = CHR 0x22 # s"
  shows "c_json_read_string NeverFails json =
    (case read_string_loop NeverFails s [] of
       None \<Rightarrow> None
     | Some (Inl (r, s')) \<Rightarrow> Some (Inl r, json\<lparr>p := s', poison := Some r\<rparr>)
     | Some (Inr (s', string)) \<Rightarrow>
         (case c_json_advance (json\<lparr>p := ptr_add 1 s'\<rparr>) of
            (Inl r, json') \<Rightarrow> Some (Inl r, json')
          | (Inr u, json') \<Rightarrow> Some (Inr (c_string string), json')))"
  using assms
  by (simp add: c_json_read_string_def deref_def ptr_add_def latch_def
      split: option.splits sum.splits prod.splits)

text \<open>
  C7. The digits \<open>h1 h2 h3 h4\<close> denote a high surrogate \<open>hi\<close> in
  \<open>0xD800..0xDBFF\<close> and the digits \<open>l1 l2 l3 l4\<close> a low surrogate \<open>lo\<close> in
  \<open>0xDC00..0xDFFF\<close>, and the stream does not fail. Wherever the loop of
  \<^verbatim>\<open>c_json_read_string\<close> meets the two escapes \<^verbatim>\<open>\uXXXX\uYYYY\<close>, it steps
  over both and appends the standard UTF-8 encoding of the one code point
  \<open>0x10000 + (hi - 0xD800) * 0x400 + (lo - 0xDC00)\<close>. For a string with plain bytes
  before and behind the pair, \<^verbatim>\<open>c_json_read_string\<close> on a decoder with no latched
  error moves the cursor behind the closing quote, returns what
  \<^verbatim>\<open>c_json_advance\<close> returns there, and on success yields the bytes before, the
  encoding of the code point, and the bytes behind.
\<close>

theorem surrogate_pair_decoded:
  assumes "hex_value 0 [h1, h2, h3, h4] = Some hi" and "0xD800 \<le> hi" and "hi \<le> 0xDBFF"
    and "hex_value 0 [l1, l2, l3, l4] = Some lo" and "0xDC00 \<le> lo" and "lo \<le> 0xDFFF"
  shows
    "read_string_loop NeverFails
       (CHR 0x5C # CHR ''u'' # h1 # h2 # h3 # h4 # CHR 0x5C # CHR ''u'' # l1 # l2 # l3 # l4 # s)
       stream =
     read_string_loop NeverFails s
       (stream @ utf8_encode (0x10000 + (hi - 0xD800) * 0x400 + (lo - 0xDC00))) \<and>
     (poison json = None \<and>
      p json = CHR 0x22 # pre @
        CHR 0x5C # CHR ''u'' # h1 # h2 # h3 # h4 # CHR 0x5C # CHR ''u'' # l1 # l2 # l3 # l4 #
        post @ CHR 0x22 # rest \<and>
      (\<forall>c\<in>set pre. plain c) \<and> (\<forall>c\<in>set post. plain c) \<longrightarrow>
      c_json_read_string NeverFails json =
        Some (case c_json_advance (json\<lparr>p := rest\<rparr>) of
                (Inl r, json') \<Rightarrow> (Inl r, json')
              | (Inr u, json') \<Rightarrow>
                  (Inr (pre @ utf8_encode (0x10000 + (hi - 0xD800) * 0x400 + (lo - 0xDC00)) @ post),
                   json')))"
proof -
  let ?n = "0x10000 + (hi - 0xD800) * 0x400 + (lo - 0xDC00)"
  have step: "read_string_loop NeverFails
       (CHR 0x5C # CHR ''u'' # h1 # h2 # h3 # h4 # CHR 0x5C # CHR ''u'' # l1 # l2 # l3 # l4 # s)
       stream = read_string_loop NeverFails s (stream @ utf8_encode ?n)" for s stream
  proof -
    from escape_u_pair [OF assms] obtain cp where
      e: "read_string_escape_u
            (h1 # h2 # h3 # h4 # CHR 0x5C # CHR ''u'' # l1 # l2 # l3 # l4 # s) = Inr (cp, s)"
      and cp: "unat cp = ?n"
      by blast
    have "?n \<le> 0x10FFFF" using assms(2,3,5,6) by simp
    with cp have "c_json_write_utf8 NeverFails cp stream = Some (Inr (stream @ utf8_encode ?n))"
      using write_utf8_refines [of cp stream] by simp
    with e show ?thesis by (simp add: loop_escape_u)
  qed
  have "c_json_read_string NeverFails json =
        Some (case c_json_advance (json\<lparr>p := rest\<rparr>) of
                (Inl r, json') \<Rightarrow> (Inl r, json')
              | (Inr u, json') \<Rightarrow> (Inr (pre @ utf8_encode ?n @ post), json'))"
    if a: "poison json = None"
      "p json = CHR 0x22 # pre @
        CHR 0x5C # CHR ''u'' # h1 # h2 # h3 # h4 # CHR 0x5C # CHR ''u'' # l1 # l2 # l3 # l4 #
        post @ CHR 0x22 # rest"
      "\<forall>c\<in>set pre. plain c" "\<forall>c\<in>set post. plain c"
  proof -
    have "read_string_loop NeverFails
        (pre @ CHR 0x5C # CHR ''u'' # h1 # h2 # h3 # h4 # CHR 0x5C # CHR ''u'' # l1 # l2 # l3 # l4 #
         post @ CHR 0x22 # rest) [] =
        Some (Inr (CHR 0x22 # rest, pre @ utf8_encode ?n @ post))"
      by (simp add: loop_plain [OF a(3)] step loop_plain [OF a(4)] loop_quote)
    moreover have "?n \<le> 0x10FFFF" using assms(2,3,5,6) by simp
    then have "c_string (pre @ utf8_encode ?n @ post) = pre @ utf8_encode ?n @ post"
      using a(3,4) utf8_encode_4_no_nul [of ?n]
      by (intro c_string_no_nul) (auto dest: plain_not_nul)
    ultimately show ?thesis
      using read_string_at_quote [OF a(1,2)]
      by (simp add: ptr_add_def split: prod.splits sum.splits)
  qed
  with step show ?thesis by blast
qed

lemma char_bytes:
  "char_of (240::nat) = CHR 0xF0" "char_of (159::nat) = CHR 0x9F"
  "char_of (152::nat) = CHR 0x98" "char_of (128::nat) = CHR 0x80"
  by code_simp+

lemma utf8_encode_1F600: "utf8_encode 0x1F600 = [CHR 0xF0, CHR 0x9F, CHR 0x98, CHR 0x80]"
  by (simp add: utf8_encode_def char_bytes)

text \<open>
  C7 at the string \<^verbatim>\<open>"\uD83D\uDE00"\<close>, read at the root: the result is the four
  bytes \<open>F0 9F 98 80\<close>, the UTF-8 encoding of U+1F600.
\<close>

theorem surrogate_pair_decoded_witness:
  "c_json_read_string NeverFails
     \<lparr>input = Some (CHR 0x22 # CHR 0x5C # ''uD83D'' @ CHR 0x5C # ''uDE00'' @ [CHR 0x22]),
      p = CHR 0x22 # CHR 0x5C # ''uD83D'' @ CHR 0x5C # ''uDE00'' @ [CHR 0x22],
      poison = None, n_states = 0, level = 0, states = [CHR 0x00]\<rparr> =
   Some (Inr [CHR 0xF0, CHR 0x9F, CHR 0x98, CHR 0x80],
     \<lparr>input = Some (CHR 0x22 # CHR 0x5C # ''uD83D'' @ CHR 0x5C # ''uDE00'' @ [CHR 0x22]),
      p = [], poison = None, n_states = 0, level = 0, states = [CHR 0x00]\<rparr>)"
proof -
  have h: "hex_value 0 ''D83D'' = Some 0xD83D" "hex_value 0 ''DE00'' = Some 0xDE00"
    by (simp_all add: hex_digit_value_def)
  from surrogate_pair_decoded [OF h(1) _ _ h(2), THEN conjunct2, of
      "\<lparr>input = Some (CHR 0x22 # CHR 0x5C # ''uD83D'' @ CHR 0x5C # ''uDE00'' @ [CHR 0x22]),
        p = CHR 0x22 # CHR 0x5C # ''uD83D'' @ CHR 0x5C # ''uDE00'' @ [CHR 0x22],
        poison = None, n_states = 0, level = 0, states = [CHR 0x00]\<rparr>" "[]" "[]" "[]"]
  show ?thesis
    by (simp add: utf8_encode_1F600 c_json_advance_def)
qed

text \<open>
  C8. A string has plain bytes and then an escape \<^verbatim>\<open>\uXXXX\<close> whose digits denote
  \<open>cu\<close>, and the stream does not fail. If \<open>cu\<close> is a high surrogate
  (\<open>0xD800..0xDBFF\<close>) that is not followed at once by an escape of a low surrogate,
  or if \<open>cu\<close> is itself a low surrogate (\<open>0xDC00..0xDFFF\<close>), then
  \<^verbatim>\<open>c_json_read_string\<close> on a decoder with no latched error fails with
  \<^verbatim>\<open>C_JSON_E_INVALID_JSON\<close> and latches it.
\<close>

theorem unpaired_surrogate_rejected:
  assumes "poison json = None"
    and "p json = CHR 0x22 # pre @ CHR 0x5C # CHR ''u'' # h1 # h2 # h3 # h4 # rest"
    and "\<forall>c\<in>set pre. plain c"
    and "hex_value 0 [h1, h2, h3, h4] = Some cu"
    and "(0xD800 \<le> cu \<and> cu \<le> 0xDBFF \<and> \<not> low_surrogate_escape rest) \<or>
         (0xDC00 \<le> cu \<and> cu \<le> 0xDFFF)"
  shows "\<exists>s. c_json_read_string NeverFails json =
           Some (Inl C_JSON_E_INVALID_JSON, json\<lparr>p := s, poison := Some C_JSON_E_INVALID_JSON\<rparr>)"
proof -
  from escape_u_unpaired [OF assms(4,5)] obtain s where
    "read_string_escape_u (h1 # h2 # h3 # h4 # rest) = Inl (C_JSON_E_INVALID_JSON, s)"
    by blast
  then have "read_string_loop NeverFails
      (pre @ CHR 0x5C # CHR ''u'' # h1 # h2 # h3 # h4 # rest) [] =
      Some (Inl (C_JSON_E_INVALID_JSON, s))"
    by (simp add: loop_plain [OF assms(3)] loop_escape_u)
  then have "c_json_read_string NeverFails json =
      Some (Inl C_JSON_E_INVALID_JSON, json\<lparr>p := s, poison := Some C_JSON_E_INVALID_JSON\<rparr>)"
    using read_string_at_quote [OF assms(1,2)] by simp
  then show ?thesis by (rule exI)
qed

text \<open>
  C8 at the strings \<^verbatim>\<open>"\uD800"\<close> (a high surrogate before the closing quote) and
  \<^verbatim>\<open>"\uDC00"\<close> (a low surrogate alone), read at the root.
\<close>

theorem unpaired_surrogate_rejected_witness:
  "(\<exists>s. c_json_read_string NeverFails
      \<lparr>input = Some (CHR 0x22 # CHR 0x5C # ''uD800'' @ [CHR 0x22]),
       p = CHR 0x22 # CHR 0x5C # ''uD800'' @ [CHR 0x22],
       poison = None, n_states = 0, level = 0, states = [CHR 0x00]\<rparr> =
    Some (Inl C_JSON_E_INVALID_JSON,
      \<lparr>input = Some (CHR 0x22 # CHR 0x5C # ''uD800'' @ [CHR 0x22]),
       p = s, poison = Some C_JSON_E_INVALID_JSON, n_states = 0, level = 0,
       states = [CHR 0x00]\<rparr>)) \<and>
   (\<exists>s. c_json_read_string NeverFails
      \<lparr>input = Some (CHR 0x22 # CHR 0x5C # ''uDC00'' @ [CHR 0x22]),
       p = CHR 0x22 # CHR 0x5C # ''uDC00'' @ [CHR 0x22],
       poison = None, n_states = 0, level = 0, states = [CHR 0x00]\<rparr> =
    Some (Inl C_JSON_E_INVALID_JSON,
      \<lparr>input = Some (CHR 0x22 # CHR 0x5C # ''uDC00'' @ [CHR 0x22]),
       p = s, poison = Some C_JSON_E_INVALID_JSON, n_states = 0, level = 0,
       states = [CHR 0x00]\<rparr>))"
proof -
  let ?hi = "\<lparr>input = Some (CHR 0x22 # CHR 0x5C # ''uD800'' @ [CHR 0x22]),
       p = CHR 0x22 # CHR 0x5C # ''uD800'' @ [CHR 0x22],
       poison = None, n_states = 0, level = 0, states = [CHR 0x00]\<rparr>"
  let ?lo = "\<lparr>input = Some (CHR 0x22 # CHR 0x5C # ''uDC00'' @ [CHR 0x22]),
       p = CHR 0x22 # CHR 0x5C # ''uDC00'' @ [CHR 0x22],
       poison = None, n_states = 0, level = 0, states = [CHR 0x00]\<rparr>"
  have h: "hex_value 0 ''D800'' = Some 0xD800" "hex_value 0 ''DC00'' = Some 0xDC00"
    by (simp_all add: hex_digit_value_def)
  have n: "\<not> low_surrogate_escape [CHR 0x22]"
    by (simp add: low_surrogate_escape_def)
  have "\<exists>s. c_json_read_string NeverFails ?hi =
      Some (Inl C_JSON_E_INVALID_JSON, ?hi\<lparr>p := s, poison := Some C_JSON_E_INVALID_JSON\<rparr>)"
    by (rule unpaired_surrogate_rejected [where pre = "[]" and rest = "[CHR 0x22]", OF _ _ _ h(1)])
      (simp_all add: n)
  moreover have "\<exists>s. c_json_read_string NeverFails ?lo =
      Some (Inl C_JSON_E_INVALID_JSON, ?lo\<lparr>p := s, poison := Some C_JSON_E_INVALID_JSON\<rparr>)"
    by (rule unpaired_surrogate_rejected [where pre = "[]" and rest = "[CHR 0x22]", OF _ _ _ h(2)])
      simp_all
  ultimately show ?thesis by simp
qed

section \<open>Defined behaviour\<close>

text \<open>
  The code point that \<^verbatim>\<open>c_json_read_string\<close> decodes from a Unicode escape is
  at most \<open>0x10FFFF\<close>, so \<^verbatim>\<open>c_json_write_utf8\<close> never reaches its
  \<^verbatim>\<open>assert(0)\<close>.
\<close>

lemma escape_u_code_point:
  assumes "read_string_escape_u s = Inr (cp, s')"
  shows "cp \<le> 0x10FFFF"
proof (cases "c_json_read_utf16_unit s")
  case (Inl r)
  with assms show ?thesis by (simp add: read_string_escape_u_def)
next
  case (Inr cu)
  show ?thesis
  proof (cases "0xD800 \<le> cu \<and> cu \<le> 0xDBFF")
    case False
    have "unat (ucast cu :: 32 word) < 2 ^ 16"
      using unsigned_less [of cu] by (simp add: unat_ucast_16_32)
    then have "(ucast cu :: 32 word) \<le> 0x10FFFF"
      by (simp add: word_le_nat_alt)
    with False Inr assms show ?thesis
      by (auto simp: read_string_escape_u_def Let_def split: if_splits)
  next
    case True
    show ?thesis
    proof (cases "c_json_read_utf16_unit (ptr_add 2 (ptr_add 4 s))")
      case (Inl r)
      with True Inr assms show ?thesis
        by (auto simp: read_string_escape_u_def Let_def split: if_splits)
    next
      case second: (Inr cu')
      with True Inr assms have r: "0xDC00 \<le> cu'" "cu' \<le> 0xDFFF"
        and cp: "cp = 0x10000 + push_bit 10 (ucast cu - 0xD800) + (ucast cu' - 0xDC00)"
        by (auto simp: read_string_escape_u_def Let_def not_less split: if_splits)
      from True r have "unat cp = 0x10000 + (unat cu - 0xD800) * 0x400 + (unat cu' - 0xDC00)"
        unfolding cp by (simp only: surrogate_cp)
      moreover from True r have "unat cu \<le> 0xDBFF" and "unat cu' \<le> 0xDFFF"
        by (simp_all add: word_le_nat_alt)
      ultimately show ?thesis by (simp add: word_le_nat_alt)
    qed
  qed
qed

lemma write_utf8_defined: "cp \<le> 0x10FFFF \<Longrightarrow> c_json_write_utf8 env cp stream \<noteq> None"
  by (simp add: c_json_write_utf8_def)

lemma read_string_loop_defined: "read_string_loop env s stream \<noteq> None"
proof (induction env s stream rule: read_string_loop.induct)
  case (1 env s stream)
  show ?case
  proof (cases "read_string_escape_u (ptr_add 2 s)")
    case (Inl e)
    with 1 show ?thesis
      by (subst read_string_loop.simps) (auto split: option.splits sum.splits prod.splits)
  next
    case (Inr x)
    obtain cp s' where x: "x = (cp, s')" by (cases x)
    from Inr have "cp \<le> 0x10FFFF"
      unfolding x by (rule escape_u_code_point)
    then have "c_json_write_utf8 env cp stream \<noteq> None"
      by (rule write_utf8_defined)
    with 1 Inr x show ?thesis
      by (subst read_string_loop.simps) (auto split: option.splits sum.splits prod.splits)
  qed
qed

lemma read_string_defined: "c_json_read_string env json \<noteq> None"
  using read_string_loop_defined [of env "ptr_add 1 (p json)" "[]"]
  by (auto simp: c_json_read_string_def split: option.splits sum.splits prod.splits)

text \<open>
  A call has no defined behaviour only when the caller breaks the contract: a second
  \<^verbatim>\<open>c_json_begin_read\<close> in an open session, or a call that reads the cursor while
  no session is open. The assertion of \<^verbatim>\<open>c_json_write_utf8\<close> never fails.
\<close>

lemma call_defined:
  "call x json = None \<longleftrightarrow>
     (input json = None \<and> reads_cursor x json) \<or> ((\<exists>s. x = Begin s) \<and> input json \<noteq> None)"
  by (cases x) (auto simp: call_def c_json_begin_read_def read_string_defined)

section \<open>A decoded 0\<close>

text \<open>
  The string \<^verbatim>\<open>"a\u0000b"\<close>: the three bytes \<open>a\<close>, 0 and \<open>b\<close> are written to the
  stream, and the caller's string is \<open>a\<close>.
\<close>

lemma char_of_0: "char_of (0::nat) = CHR 0x00"
  by code_simp

lemma read_string_nul_escape:
  "c_json_read_string NeverFails
     \<lparr>input = Some (CHR 0x22 # ''a'' @ CHR 0x5C # ''u0000b'' @ [CHR 0x22]),
      p = CHR 0x22 # ''a'' @ CHR 0x5C # ''u0000b'' @ [CHR 0x22],
      poison = None, n_states = 0, level = 0, states = [CHR 0x00]\<rparr> =
   Some (Inr ''a'',
     \<lparr>input = Some (CHR 0x22 # ''a'' @ CHR 0x5C # ''u0000b'' @ [CHR 0x22]),
      p = [], poison = None, n_states = 0, level = 0, states = [CHR 0x00]\<rparr>)"
  by (simp add: run_simps char_of_0)

end
